theory Spec2Isabelle
  imports Main "HOL-Library.Sublist"
begin

section \<open>JavaScript values\<close>

text \<open>
  The values that cross the dispatcher: cached data, request parameters, response bodies
  and the optional fields of an error are typed \<open>unknown\<close> or cast without a check, so
  they are modelled as the JSON-shaped values of JavaScript. Numbers are integers (of
  magnitude below \<open>10^21\<close>, which JavaScript prints in full). An object is the list of
  its own properties in the order in which JavaScript enumerates them, which for names
  that are not array indices is the order of insertion; its names are distinct. A string
  is a list of characters.
\<close>

datatype jsval =
    JUndefined
  | JNull
  | JBool bool
  | JNum int
  | JStr string
  | JArr "jsval list"
  | JObj "(string \<times> jsval) list"

text \<open>What \<open>if (v)\<close>, \<open>v || d\<close> and \<open>v ? a : b\<close> test.\<close>

fun truthy :: "jsval \<Rightarrow> bool" where
  "truthy JUndefined = False"
| "truthy JNull = False"
| "truthy (JBool b) = b"
| "truthy (JNum n) = (n \<noteq> 0)"
| "truthy (JStr s) = (s \<noteq> [])"
| "truthy (JArr xs) = True"
| "truthy (JObj ps) = True"

text \<open>\<open>s.includes(p)\<close>: \<open>p\<close> occurs in \<open>s\<close> as a contiguous piece.\<close>

fun string_includes :: "string \<Rightarrow> string \<Rightarrow> bool" where
  "string_includes [] p = (p = [])"
| "string_includes (c # cs) p = (prefix p (c # cs) \<or> string_includes cs p)"

text \<open>\<open>Array.prototype.join\<close> on strings, and the decimal text of an integer.\<close>

fun join :: "string \<Rightarrow> string list \<Rightarrow> string" where
  "join sep [] = []"
| "join sep [x] = x"
| "join sep (x # y # ys) = x @ sep @ join sep (y # ys)"

definition digit_char :: "nat \<Rightarrow> char" where
  "digit_char d = ''0123456789abcdef'' ! d"

fun digits :: "nat \<Rightarrow> string" where
  "digits n = (if n < 10 then [digit_char n] else digits (n div 10) @ [digit_char (n mod 10)])"

definition number_toString :: "int \<Rightarrow> string" where
  "number_toString n = (if n < 0 then ''-'' @ digits (nat (- n)) else digits (nat n))"

text \<open>
  \<open>JSON.stringify\<close>. A string is quoted, with the double quote, the backslash and the
  control characters below U+0020 escaped. In an array \<open>undefined\<close> is written
  \<open>null\<close>; in an object a property whose value is \<open>undefined\<close> is left out; of
  \<open>undefined\<close> itself the result is \<open>undefined\<close>, here \<open>None\<close>.
\<close>

definition escape_char :: "char \<Rightarrow> string" where
  "escape_char c =
     (if c = CHR 0x22 then [CHR 0x5C, CHR 0x22]
      else if c = CHR 0x5C then [CHR 0x5C, CHR 0x5C]
      else if c = CHR 0x08 then [CHR 0x5C, CHR ''b'']
      else if c = CHR 0x0C then [CHR 0x5C, CHR ''f'']
      else if c = CHR 0x0A then [CHR 0x5C, CHR ''n'']
      else if c = CHR 0x0D then [CHR 0x5C, CHR ''r'']
      else if c = CHR 0x09 then [CHR 0x5C, CHR ''t'']
      else if (of_char c :: nat) < 32 then
        [CHR 0x5C, CHR ''u'', CHR ''0'', CHR ''0'',
         digit_char (of_char c div 16), digit_char (of_char c mod 16)]
      else [c])"

text \<open>The characters that follow the backslash in the escapes above.\<close>

definition escape_tail :: "char set" where
  "escape_tail = set (CHR 0x22 # CHR 0x5C # ''bfnrtu0123456789abcdef'')"

definition quote :: "string \<Rightarrow> string" where
  "quote s = [CHR 0x22] @ concat (map escape_char s) @ [CHR 0x22]"

fun JSON_stringify :: "jsval \<Rightarrow> string option"
  and stringify_elements :: "jsval list \<Rightarrow> string list"
  and stringify_properties :: "(string \<times> jsval) list \<Rightarrow> string list" where
  "JSON_stringify JUndefined = None"
| "JSON_stringify JNull = Some ''null''"
| "JSON_stringify (JBool b) = Some (if b then ''true'' else ''false'')"
| "JSON_stringify (JNum n) = Some (number_toString n)"
| "JSON_stringify (JStr s) = Some (quote s)"
| "JSON_stringify (JArr xs) = Some (''['' @ join '','' (stringify_elements xs) @ '']'')"
| "JSON_stringify (JObj ps) = Some (''{'' @ join '','' (stringify_properties ps) @ ''}'')"
| "stringify_elements [] = []"
| "stringify_elements (x # xs) =
     (case JSON_stringify x of None \<Rightarrow> ''null'' | Some t \<Rightarrow> t) # stringify_elements xs"
| "stringify_properties [] = []"
| "stringify_properties ((k, v) # ps) =
     (case JSON_stringify v of
        None \<Rightarrow> stringify_properties ps
      | Some t \<Rightarrow> (quote k @ '':'' @ t) # stringify_properties ps)"

text \<open>
  The conversion to a string that \<open>new Error(message)\<close> and \<open>join\<close> apply. Inside
  \<open>join\<close> the elements \<open>null\<close> and \<open>undefined\<close> give the empty string. An object
  is converted by its \<open>toString\<close> method: the inherited one prints \<open>[object Object]\<close>,
  but an own property of that name, which in these values is never a function, hides it,
  and the conversion throws a \<open>TypeError\<close>. The result \<open>None\<close> is that throw.
\<close>

definition to_primitive_error :: string where
  "to_primitive_error = ''Cannot convert object to primitive value''"

fun js_toString :: "jsval \<Rightarrow> string option"
  and join_elements :: "jsval list \<Rightarrow> string list option" where
  "js_toString JUndefined = Some ''undefined''"
| "js_toString JNull = Some ''null''"
| "js_toString (JBool b) = Some (if b then ''true'' else ''false'')"
| "js_toString (JNum n) = Some (number_toString n)"
| "js_toString (JStr s) = Some s"
| "js_toString (JArr xs) = map_option (join '','') (join_elements xs)"
| "js_toString (JObj ps) =
     (if map_of ps ''toString'' = None then Some ''[object Object]'' else None)"
| "join_elements [] = Some []"
| "join_elements (x # xs) =
     (case (if x = JUndefined \<or> x = JNull then Some [] else js_toString x) of
        None \<Rightarrow> None
      | Some t \<Rightarrow> map_option ((#) t) (join_elements xs))"


section \<open>Rate limiter (lib/security: checkRateLimit, cleanupRateLimit)\<close>

text \<open>
  The module-level \<open>rateLimitMap\<close> is a \<open>Map<string, {count, resetTime}>\<close>. It is
  threaded through the model as an explicit map; \<open>Date.now()\<close> is the parameter \<open>now\<close>
  (integer milliseconds). Counts, limits and window lengths are integers.
\<close>

record rate_entry =
  count :: int
  resetTime :: int

type_synonym rateLimitMap = "string \<rightharpoonup> rate_entry"

record rate_result =
  allowed :: bool
  result_resetTime :: int

definition rate_key :: "string \<Rightarrow> string" where
  "rate_key identifier = ''rate_limit:'' @ identifier"

text \<open>
  \<open>checkRateLimit(identifier, maxRequests = 5, windowMs = 15 * 60 * 1000)\<close>: an omitted
  argument is \<open>None\<close> and takes the default. \<open>current.count++\<close> mutates the entry that
  is stored in the map, which the model writes back under the same key.
\<close>

definition checkRateLimit ::
  "rateLimitMap \<Rightarrow> int \<Rightarrow> string \<Rightarrow> int option \<Rightarrow> int option \<Rightarrow> rate_result \<times> rateLimitMap" where
  "checkRateLimit m now identifier maxRequests_arg windowMs_arg =
     (let maxRequests = (case maxRequests_arg of None \<Rightarrow> 5 | Some n \<Rightarrow> n);
          windowMs = (case windowMs_arg of None \<Rightarrow> 15 * 60 * 1000 | Some w \<Rightarrow> w);
          key = rate_key identifier;
          fresh = (\<lparr>allowed = True, result_resetTime = now + windowMs\<rparr>,
                   m(key \<mapsto> \<lparr>count = 1, resetTime = now + windowMs\<rparr>))
      in case m key of
           None \<Rightarrow> fresh
         | Some current \<Rightarrow>
             if now > resetTime current then fresh
             else if count current \<ge> maxRequests then
               (\<lparr>allowed = False, result_resetTime = resetTime current\<rparr>, m)
             else
               (\<lparr>allowed = True, result_resetTime = resetTime current\<rparr>,
                m(key \<mapsto> current\<lparr>count := count current + 1\<rparr>)))"

text \<open>\<open>cleanupRateLimit()\<close>: every entry with \<open>now > resetTime\<close> is deleted.\<close>

definition cleanupRateLimit :: "rateLimitMap \<Rightarrow> int \<Rightarrow> rateLimitMap" where
  "cleanupRateLimit m now =
     (\<lambda>k. case m k of
             None \<Rightarrow> None
           | Some v \<Rightarrow> if now > resetTime v then None else Some v)"

text \<open>
  A run of the limiter: requests arriving at given times, interleaved with runs of the
  periodic sweep. The run returns the result of every request, tagged with its identifier.
\<close>

datatype rate_event =
    Request int string "int option" "int option"
  | Cleanup int

fun event_identifier :: "rate_event \<Rightarrow> string option" where
  "event_identifier (Request now identifier mx w) = Some identifier"
| "event_identifier (Cleanup now) = None"

fun run_events :: "rateLimitMap \<Rightarrow> rate_event list \<Rightarrow> (string \<times> rate_result) list" where
  "run_events m [] = []"
| "run_events m (Request now identifier mx w # es) =
     (let (r, m') = checkRateLimit m now identifier mx w
      in (identifier, r) # run_events m' es)"
| "run_events m (Cleanup now # es) = run_events (cleanupRateLimit m now) es"

definition results_for :: "string \<Rightarrow> (string \<times> rate_result) list \<Rightarrow> rate_result list" where
  "results_for y rs = map snd (filter (\<lambda>p. fst p = y) rs)"

definition not_by :: "string \<Rightarrow> rate_event \<Rightarrow> bool" where
  "not_by x e = (event_identifier e \<noteq> Some x)"

section \<open>Error normalizer (lib/api-client.ts)\<close>

text \<open>
  \<open>ApiErrorClass\<close>: an \<open>Error\<close> with a status, an optional machine code and optional
  details. The optional fields hold whatever the server sent, so they are JavaScript
  values, \<open>JUndefined\<close> when absent.
\<close>

record api_error =
  message :: string
  status :: int
  code :: jsval
  details :: jsval

text \<open>
  What a \<open>throw\<close> can carry: an \<open>ApiErrorClass\<close>, any other \<open>Error\<close> (with its
  message), or a value that is not an \<open>Error\<close>.
\<close>

datatype thrown =
    ApiErrorClass api_error
  | JsError string
  | NonError jsval

text \<open>\<open>ApiResponse<T>\<close>: the envelope returned on success.\<close>

record api_response =
  resp_data :: jsval
  resp_status :: int
  resp_message :: jsval

text \<open>
  The \<open>Response\<close> of \<open>fetch\<close>, as far as \<open>handleResponse\<close> reads it: status and status
  text, the \<open>content-type\<close> header (\<open>None\<close> when the header is missing), and what
  \<open>response.json()\<close> and \<open>response.text()\<close> resolve to (\<open>None\<close> when they reject).
  \<open>response.ok\<close> is true for the statuses 200 to 299.
\<close>

record http_response =
  http_status :: int
  statusText :: string
  content_type :: "string option"
  json_body :: "jsval option"
  text_body :: "string option"

definition ok :: "http_response \<Rightarrow> bool" where
  "ok r = (200 \<le> http_status r \<and> http_status r \<le> 299)"

datatype fetch_outcome =
    Resolved http_response
  | Rejected thrown

text \<open>
  Reading a property that \<open>handleResponse\<close> asks for (\<open>message\<close>, \<open>code\<close>, \<open>errors\<close>,
  \<open>details\<close>): on \<open>null\<close> or \<open>undefined\<close> the read throws a \<open>TypeError\<close>; on an object
  it is the property's value or \<open>undefined\<close>; on a string, number, boolean or array none
  of these names is defined. The text of the \<open>TypeError\<close> is the one V8 prints.
\<close>

definition type_error_message :: "string \<Rightarrow> string \<Rightarrow> string" where
  "type_error_message kind name =
     ''Cannot read properties of '' @ kind @ '' (reading '' @ [CHR 0x27] @ name @ [CHR 0x27]
       @ '')''"

fun get_property :: "jsval \<Rightarrow> string \<Rightarrow> thrown + jsval" where
  "get_property JUndefined name = Inl (JsError (type_error_message ''undefined'' name))"
| "get_property JNull name = Inl (JsError (type_error_message ''null'' name))"
| "get_property (JObj ps) name =
     Inr (case map_of ps name of None \<Rightarrow> JUndefined | Some v \<Rightarrow> v)"
| "get_property v name = Inr JUndefined"

definition property :: "jsval \<Rightarrow> string \<Rightarrow> jsval" where
  "property v name = (case get_property v name of Inl e \<Rightarrow> JUndefined | Inr x \<Rightarrow> x)"

text \<open>
  \<open>handleResponse\<close>. The constructor of the error passes the message to \<open>Error\<close>, which
  converts it to a string; where that conversion throws, so does \<open>handleResponse\<close>.
\<close>

definition handleResponse :: "http_response \<Rightarrow> thrown + api_response" where
  "handleResponse response =
     (let isJson = (case content_type response of
                      None \<Rightarrow> False
                    | Some contentType \<Rightarrow> string_includes contentType ''application/json'');
          parsed = (if isJson then json_body response
                    else map_option JStr (text_body response))
      in case parsed of
           None \<Rightarrow>
             Inl (ApiErrorClass \<lparr>message = ''Failed to parse response'',
                    status = http_status response, code = JUndefined, details = JUndefined\<rparr>)
         | Some data \<Rightarrow>
             if \<not> ok response then
               (case get_property data ''message'' of
                  Inl e \<Rightarrow> Inl e
                | Inr msg \<Rightarrow>
                    (case (if truthy msg then js_toString msg
                           else Some (''HTTP '' @ number_toString (http_status response) @ '': ''
                                        @ statusText response)) of
                       None \<Rightarrow> Inl (JsError to_primitive_error)
                     | Some text \<Rightarrow>
                         Inl (ApiErrorClass
                           \<lparr>message = text,
                            status = http_status response,
                            code = property data ''code'',
                            details =
                              (if truthy (property data ''errors'') then property data ''errors''
                               else property data ''details'')\<rparr>)))
             else
               (case get_property data ''message'' of
                  Inl e \<Rightarrow> Inl e
                | Inr msg \<Rightarrow>
                    Inr \<lparr>resp_data = data, resp_status = http_status response,
                         resp_message = msg\<rparr>))"

text \<open>
  \<open>request\<close>: the \<open>try\<close> block holds both the \<open>fetch\<close> and the call of
  \<open>handleResponse\<close>, so its \<open>catch\<close> sees whatever either of them throws. Every caught
  \<open>Error\<close> (an \<open>ApiErrorClass\<close> is one) is replaced by a new \<open>ApiErrorClass\<close> with
  status 0 and code \<open>NETWORK_ERROR\<close>; a thrown value that is not an \<open>Error\<close> is rethrown.
  The outcome of the \<open>fetch\<close> call is a parameter.
\<close>

definition network_error :: "string \<Rightarrow> api_error" where
  "network_error msg =
     \<lparr>message = msg, status = 0, code = JStr ''NETWORK_ERROR'', details = JUndefined\<rparr>"

fun thrown_message :: "thrown \<Rightarrow> string option" where
  "thrown_message (ApiErrorClass e) = Some (message e)"
| "thrown_message (JsError msg) = Some msg"
| "thrown_message (NonError v) = None"

definition request :: "fetch_outcome \<Rightarrow> thrown + api_response" where
  "request fetched =
     (case (case fetched of
              Rejected e \<Rightarrow> Inl e
            | Resolved response \<Rightarrow> handleResponse response) of
        Inr r \<Rightarrow> Inr r
      | Inl error \<Rightarrow>
          (case thrown_message error of
             Some msg \<Rightarrow> Inl (ApiErrorClass (network_error msg))
           | None \<Rightarrow> Inl error))"

text \<open>
  \<open>ApiErrorHandler.handleError\<close>. \<open>Object.values(details).flat().join(', ')\<close>: the
  values of the object (of an array its elements, of a string its characters, of a number
  or boolean none), arrays among them flattened by one level, joined with \<open>null\<close> and
  \<open>undefined\<close> elements printed as the empty string. The function returns its string, or
  \<open>None\<close> where the conversion of an element throws the \<open>TypeError\<close>.
\<close>

fun object_values :: "jsval \<Rightarrow> jsval list" where
  "object_values (JObj ps) = map snd ps"
| "object_values (JArr xs) = xs"
| "object_values (JStr s) = map (\<lambda>c. JStr [c]) s"
| "object_values v = []"

fun flat :: "jsval list \<Rightarrow> jsval list" where
  "flat [] = []"
| "flat (JArr ys # xs) = ys @ flat xs"
| "flat (x # xs) = x # flat xs"

definition details_summary :: "jsval \<Rightarrow> string option" where
  "details_summary d = map_option (join '', '') (join_elements (flat (object_values d)))"

definition handleError :: "api_error \<Rightarrow> string option" where
  "handleError error =
     (if status error = 400 then
        (if truthy (details error) then details_summary (details error)
         else Some (if message error \<noteq> [] then message error else ''Bad request''))
      else if status error = 401 then Some ''Your session has expired. Please log in again.''
      else if status error = 403 then
        Some ''You do not have permission to perform this action.''
      else if status error = 404 then Some ''The requested resource was not found.''
      else if status error = 409 then Some ''This action conflicts with existing data.''
      else if status error = 422 then
        (if truthy (details error) then details_summary (details error)
         else Some ''Validation failed. Please check your input.'')
      else if status error = 500 then
        Some ''An internal server error occurred. Please try again later.''
      else if status error = 0 then
        Some ''Unable to connect to the server. Please check your internet connection.''
      else Some (if message error \<noteq> [] then message error
                 else ''An unexpected error occurred.''))"

section \<open>Service dispatcher and its expiring cache (lib/base-service.ts)\<close>

record ServiceConfig =
  baseEndpoint :: string
  config_cacheTimeout :: "int option"
  config_enableCache :: "bool option"

record CacheEntry =
  data :: jsval
  timestamp :: int
  ttl :: int

record service =
  endpoint :: string
  cache :: "string \<rightharpoonup> CacheEntry"
  cacheTimeout :: int
  enableCache :: bool

text \<open>
  The constructor: \<open>config.cacheTimeout || 5 * 60 * 1000\<close> takes the default for a
  missing timeout and for 0; \<open>config.enableCache ?? true\<close> only for a missing flag.
\<close>

definition new_service :: "ServiceConfig \<Rightarrow> service" where
  "new_service config =
     \<lparr>endpoint = baseEndpoint config,
      cache = Map.empty,
      cacheTimeout =
        (case config_cacheTimeout config of
           None \<Rightarrow> 5 * 60 * 1000
         | Some t \<Rightarrow> if t = 0 then 5 * 60 * 1000 else t),
      enableCache = (case config_enableCache config of None \<Rightarrow> True | Some b \<Rightarrow> b)\<rparr>"

text \<open>
  \<open>getCacheKey(method, ...params)\<close>: the rest parameters are an array, which
  \<open>JSON.stringify\<close> always renders as a string.
\<close>

definition getCacheKey :: "service \<Rightarrow> string \<Rightarrow> jsval list \<Rightarrow> string" where
  "getCacheKey s method params =
     endpoint s @ '':'' @ method @ '':''
       @ (case JSON_stringify (JArr params) of None \<Rightarrow> ''undefined'' | Some t \<Rightarrow> t)"

text \<open>
  \<open>setCache(key, data, ttl?)\<close> stores \<open>ttl || this.cacheTimeout\<close>: the default for a
  missing \<open>ttl\<close> and for 0.
\<close>

definition ttl_or_default :: "service \<Rightarrow> int option \<Rightarrow> int" where
  "ttl_or_default s ttl_arg =
     (case ttl_arg of
        None \<Rightarrow> cacheTimeout s
      | Some t \<Rightarrow> if t = 0 then cacheTimeout s else t)"

definition setCache :: "service \<Rightarrow> int \<Rightarrow> string \<Rightarrow> jsval \<Rightarrow> int option \<Rightarrow> service" where
  "setCache s now key d ttl_arg =
     (if \<not> enableCache s then s
      else s\<lparr>cache := (cache s)(key \<mapsto>
             \<lparr>data = d, timestamp = now, ttl = ttl_or_default s ttl_arg\<rparr>)\<rparr>)"

text \<open>\<open>getCache\<close> returns the cached data, or \<open>null\<close>; an expired entry is deleted.\<close>

definition getCache :: "service \<Rightarrow> int \<Rightarrow> string \<Rightarrow> jsval \<times> service" where
  "getCache s now key =
     (if \<not> enableCache s then (JNull, s)
      else case cache s key of
             None \<Rightarrow> (JNull, s)
           | Some entry \<Rightarrow>
               if now - timestamp entry > ttl entry then
                 (JNull, s\<lparr>cache := (cache s)(key := None)\<rparr>)
               else (data entry, s))"

text \<open>
  \<open>clearCache(pattern?)\<close>: with a pattern (a non-empty string, as \<open>if (pattern)\<close> tests
  it) every key that includes the pattern is deleted; without one the map is cleared.
\<close>

definition clearCache :: "service \<Rightarrow> string option \<Rightarrow> service" where
  "clearCache s pattern_arg =
     (case pattern_arg of
        None \<Rightarrow> s\<lparr>cache := Map.empty\<rparr>
      | Some pattern \<Rightarrow>
          if pattern = [] then s\<lparr>cache := Map.empty\<rparr>
          else s\<lparr>cache := (\<lambda>key. if string_includes key pattern then None
                                   else cache s key)\<rparr>)"

text \<open>A cache used directly: a sequence of the three cache methods, each at its time.\<close>

datatype cache_op =
    SetCache string jsval "int option"
  | GetCache string
  | ClearCache "string option"

fun apply_cache_op :: "service \<Rightarrow> int \<times> cache_op \<Rightarrow> service" where
  "apply_cache_op s (now, SetCache key d ttl_arg) = setCache s now key d ttl_arg"
| "apply_cache_op s (now, GetCache key) = snd (getCache s now key)"
| "apply_cache_op s (now, ClearCache pattern_arg) = clearCache s pattern_arg"

definition run_cache_ops :: "service \<Rightarrow> (int \<times> cache_op) list \<Rightarrow> service" where
  "run_cache_ops s ops = fold (\<lambda>op s'. apply_cache_op s' op) ops s"

fun sets_key :: "string \<Rightarrow> int \<times> cache_op \<Rightarrow> bool" where
  "sets_key key (now, SetCache key' d ttl_arg) = (key' = key)"
| "sets_key key (now, other) = False"

text \<open>
  The calls of \<open>apiClient\<close> (imported from a module of the dispatcher's own directory).
  The client is a parameter of the model: a function from the call to what the call
  resolves to or throws. Every operation returns its result, the service with its cache
  as the operation left it, and the list of client calls it issued.
\<close>

datatype api_call =
    ApiGet string jsval
  | ApiPost string jsval
  | ApiPut string jsval
  | ApiPatch string jsval
  | ApiDelete string

type_synonym api_client = "api_call \<Rightarrow> thrown + api_response"

text \<open>
  The environment of one operation: the clock when the cache is looked up, the clock when
  the response has arrived and is stored, and the client.
\<close>

record env =
  now_lookup :: int
  now_store :: int
  apiClient :: api_client

type_synonym 'a outcome = "'a \<times> service \<times> api_call list"

text \<open>
  \<open>handleServiceError(operation, context)\<close>: a thrown \<open>ApiErrorClass\<close> becomes an
  \<open>Error\<close> with the friendly message, any other \<open>Error\<close> one that names the context,
  anything else a generic one. Where \<open>handleError\<close> itself throws, inside the \<open>catch\<close>,
  its \<open>TypeError\<close> is what the operation rejects with. The result \<open>Inl msg\<close> is the
  rejection with an \<open>Error\<close> whose message is \<open>msg\<close>.
\<close>

definition service_error_message :: "string \<Rightarrow> thrown \<Rightarrow> string" where
  "service_error_message context error =
     (case error of
        ApiErrorClass e \<Rightarrow>
          (case handleError e of None \<Rightarrow> to_primitive_error | Some friendly \<Rightarrow> friendly)
      | JsError msg \<Rightarrow> ''Failed to '' @ context @ '': '' @ msg
      | NonError v \<Rightarrow> ''An unexpected error occurred while '' @ context)"

definition handleServiceError ::
  "(thrown + jsval) outcome \<Rightarrow> string \<Rightarrow> (string + jsval) outcome" where
  "handleServiceError operation context =
     (case operation of
        (Inl error, s, calls) \<Rightarrow> (Inl (service_error_message context error), s, calls)
      | (Inr v, s, calls) \<Rightarrow> (Inr v, s, calls))"

text \<open>
  The shape shared by the reading operations: look the key up; a truthy cached value is
  returned without a call; otherwise the client is called and its data stored.
\<close>

definition cached_read ::
  "service \<Rightarrow> env \<Rightarrow> string \<Rightarrow> api_call \<Rightarrow> int option \<Rightarrow> (thrown + jsval) outcome" where
  "cached_read s e cacheKey call ttl_arg =
     (let (cached, s1) = getCache s (now_lookup e) cacheKey
      in if truthy cached then (Inr cached, s1, [])
         else case apiClient e call of
                Inl error \<Rightarrow> (Inl error, s1, [call])
              | Inr response \<Rightarrow>
                  (Inr (resp_data response),
                   setCache s1 (now_store e) cacheKey (resp_data response) ttl_arg,
                   [call]))"

definition getAll :: "service \<Rightarrow> env \<Rightarrow> jsval \<Rightarrow> (string + jsval) outcome" where
  "getAll s e params =
     handleServiceError
       (cached_read s e (getCacheKey s ''getAll'' [params]) (ApiGet (endpoint s) params) None)
       ''fetch all items''"

definition getById :: "service \<Rightarrow> env \<Rightarrow> string \<Rightarrow> (string + jsval) outcome" where
  "getById s e ident =
     handleServiceError
       (cached_read s e (getCacheKey s ''getById'' [JStr ident])
          (ApiGet (endpoint s @ ''/'' @ ident) JUndefined) None)
       (''fetch item with ID '' @ ident)"

text \<open>The writing operations: call the client, and on success clear the cache.\<close>

definition write_through ::
  "service \<Rightarrow> env \<Rightarrow> api_call \<Rightarrow> string option \<Rightarrow> (thrown + jsval) outcome" where
  "write_through s e call pattern_arg =
     (case apiClient e call of
        Inl error \<Rightarrow> (Inl error, s, [call])
      | Inr response \<Rightarrow> (Inr (resp_data response), clearCache s pattern_arg, [call]))"

definition create :: "service \<Rightarrow> env \<Rightarrow> jsval \<Rightarrow> (string + jsval) outcome" where
  "create s e d =
     handleServiceError (write_through s e (ApiPost (endpoint s) d) (Some ''getAll''))
       ''create new item''"

definition update :: "service \<Rightarrow> env \<Rightarrow> string \<Rightarrow> jsval \<Rightarrow> (string + jsval) outcome" where
  "update s e ident d =
     handleServiceError (write_through s e (ApiPut (endpoint s @ ''/'' @ ident) d) None)
       (''update item with ID '' @ ident)"

definition patch :: "service \<Rightarrow> env \<Rightarrow> string \<Rightarrow> jsval \<Rightarrow> (string + jsval) outcome" where
  "patch s e ident d =
     handleServiceError (write_through s e (ApiPatch (endpoint s @ ''/'' @ ident) d) None)
       (''partially update item with ID '' @ ident)"

definition void :: "(thrown + jsval) outcome \<Rightarrow> (thrown + jsval) outcome" where
  "void operation =
     (case operation of
        (Inl error, s, calls) \<Rightarrow> (Inl error, s, calls)
      | (Inr v, s, calls) \<Rightarrow> (Inr JUndefined, s, calls))"

definition delete :: "service \<Rightarrow> env \<Rightarrow> string \<Rightarrow> (string + jsval) outcome" where
  "delete s e ident =
     handleServiceError (void (write_through s e (ApiDelete (endpoint s @ ''/'' @ ident)) None))
       (''delete item with ID '' @ ident)"

text \<open>
  \<open>exists\<close>: \<open>getById\<close> has already turned its failure into an \<open>Error\<close>; one whose
  message includes \<open>not found\<close> answers \<open>false\<close>, any other is thrown on and wrapped
  once more.
\<close>

definition exists_op :: "service \<Rightarrow> env \<Rightarrow> string \<Rightarrow> (string + jsval) outcome" where
  "exists_op s e ident =
     handleServiceError
       (case getById s e ident of
          (Inr v, s1, calls) \<Rightarrow> (Inr (JBool True), s1, calls)
        | (Inl msg, s1, calls) \<Rightarrow>
            if string_includes msg ''not found'' then (Inr (JBool False), s1, calls)
            else (Inl (JsError msg), s1, calls))
       (''check if item with ID '' @ ident @ '' exists'')"

definition bulkCreate :: "service \<Rightarrow> env \<Rightarrow> jsval list \<Rightarrow> (string + jsval) outcome" where
  "bulkCreate s e items =
     handleServiceError
       (write_through s e (ApiPost (endpoint s @ ''/bulk'') (JObj [(''items'', JArr items)]))
          (Some ''getAll''))
       ''bulk create items''"

definition bulkUpdate :: "service \<Rightarrow> env \<Rightarrow> jsval list \<Rightarrow> (string + jsval) outcome" where
  "bulkUpdate s e updates =
     handleServiceError
       (write_through s e (ApiPut (endpoint s @ ''/bulk'') (JObj [(''updates'', JArr updates)]))
          None)
       ''bulk update items''"

definition bulkDelete :: "service \<Rightarrow> env \<Rightarrow> string list \<Rightarrow> (string + jsval) outcome" where
  "bulkDelete s e ids =
     handleServiceError
       (void (write_through s e (ApiDelete (endpoint s @ ''/bulk?ids='' @ join '','' ids)) None))
       ''bulk delete items''"

text \<open>
  \<open>ExtendedBaseService\<close>. An object literal with a spread, \<open>{ q: query, ...filters }\<close>:
  the own properties of \<open>filters\<close> (of an array or a string its elements under their
  indices, of \<open>undefined\<close> and the other values none) are assigned in their order onto
  the literal's own. A property that is already there keeps its place. A new one goes
  where JavaScript enumerates it: a name that is an array index (a decimal numeral
  without leading zero, below \<open>2^32 - 1\<close>) before every name that is not one and among
  the indices in ascending order, any other name last.
\<close>

definition is_digit :: "char \<Rightarrow> bool" where
  "is_digit c = (48 \<le> (of_char c :: nat) \<and> (of_char c :: nat) \<le> 57)"

definition index_value :: "string \<Rightarrow> int" where
  "index_value s = foldl (\<lambda>n c. 10 * n + (of_char c - 48)) 0 s"

definition is_array_index :: "string \<Rightarrow> bool" where
  "is_array_index s =
     (s \<noteq> [] \<and> list_all is_digit s \<and> (s = ''0'' \<or> hd s \<noteq> CHR ''0'')
      \<and> index_value s < 4294967295)"

fun insert_property :: "(string \<times> jsval) list \<Rightarrow> string \<Rightarrow> jsval \<Rightarrow> (string \<times> jsval) list" where
  "insert_property [] k v = [(k, v)]"
| "insert_property ((k', v') # ps) k v =
     (if is_array_index k
         \<and> (\<not> is_array_index k' \<or> index_value k < index_value k')
      then (k, v) # (k', v') # ps
      else (k', v') # insert_property ps k v)"

definition assign_property :: "(string \<times> jsval) list \<Rightarrow> string \<Rightarrow> jsval \<Rightarrow> (string \<times> jsval) list" where
  "assign_property ps k v =
     (if map_of ps k = None then insert_property ps k v
      else map (\<lambda>(k', v'). if k' = k then (k, v) else (k', v')) ps)"

definition indexed :: "jsval list \<Rightarrow> (string \<times> jsval) list" where
  "indexed xs = map (\<lambda>(i, x). (number_toString (int i), x)) (enumerate 0 xs)"

fun own_properties :: "jsval \<Rightarrow> (string \<times> jsval) list" where
  "own_properties (JObj ps) = ps"
| "own_properties (JArr xs) = indexed xs"
| "own_properties (JStr s) = indexed (map (\<lambda>c. JStr [c]) s)"
| "own_properties v = []"

definition spread :: "(string \<times> jsval) list \<Rightarrow> jsval \<Rightarrow> jsval" where
  "spread ps filters =
     JObj (fold (\<lambda>(k, v) acc. assign_property acc k v) (own_properties filters) ps)"

definition search :: "service \<Rightarrow> env \<Rightarrow> string \<Rightarrow> jsval \<Rightarrow> (string + jsval) outcome" where
  "search s e query filters =
     (let params = spread [(''q'', JStr query)] filters
      in handleServiceError
           (cached_read s e (getCacheKey s ''search'' [params])
              (ApiGet (endpoint s @ ''/search'') params) (Some 60000))
           (''search items with query '' @ [CHR 0x22] @ query @ [CHR 0x22]))"

definition getPaginated ::
  "service \<Rightarrow> env \<Rightarrow> int option \<Rightarrow> int option \<Rightarrow> jsval \<Rightarrow> (string + jsval) outcome" where
  "getPaginated s e page_arg limit_arg filters =
     (let page = (case page_arg of None \<Rightarrow> 1 | Some p \<Rightarrow> p);
          limit = (case limit_arg of None \<Rightarrow> 10 | Some l \<Rightarrow> l);
          params = spread [(''page'', JStr (number_toString page)),
                           (''limit'', JStr (number_toString limit))] filters
      in handleServiceError
           (cached_read s e (getCacheKey s ''getPaginated'' [params])
              (ApiGet (endpoint s @ ''/paginated'') params) None)
           (''fetch paginated results (page '' @ number_toString page @ '')''))"

definition getWithRelations ::
  "service \<Rightarrow> env \<Rightarrow> string \<Rightarrow> string list \<Rightarrow> (string + jsval) outcome" where
  "getWithRelations s e ident relations =
     (let params = JObj [(''include'', JStr (join '','' relations))]
      in handleServiceError
           (cached_read s e (getCacheKey s ''getWithRelations'' [JStr ident, JArr (map JStr relations)])
              (ApiGet (endpoint s @ ''/'' @ ident) params) None)
           (''fetch item with relations: '' @ join '', '' relations))"

text \<open>
  A dispatcher's life is a sequence of operations, each in its own environment.
\<close>

datatype operation =
    GetAll jsval
  | GetById string
  | Create jsval
  | Update string jsval
  | Patch string jsval
  | Delete string
  | Exists string
  | BulkCreate "jsval list"
  | BulkUpdate "jsval list"
  | BulkDelete "string list"
  | Search string jsval
  | GetPaginated "int option" "int option" jsval
  | GetWithRelations string "string list"

fun perform :: "service \<Rightarrow> env \<Rightarrow> operation \<Rightarrow> (string + jsval) outcome" where
  "perform s e (GetAll params) = getAll s e params"
| "perform s e (GetById ident) = getById s e ident"
| "perform s e (Create d) = create s e d"
| "perform s e (Update ident d) = update s e ident d"
| "perform s e (Patch ident d) = patch s e ident d"
| "perform s e (Delete ident) = delete s e ident"
| "perform s e (Exists ident) = exists_op s e ident"
| "perform s e (BulkCreate items) = bulkCreate s e items"
| "perform s e (BulkUpdate updates) = bulkUpdate s e updates"
| "perform s e (BulkDelete ids) = bulkDelete s e ids"
| "perform s e (Search query filters) = search s e query filters"
| "perform s e (GetPaginated page limit filters) = getPaginated s e page limit filters"
| "perform s e (GetWithRelations ident relations) = getWithRelations s e ident relations"

fun is_read :: "operation \<Rightarrow> bool" where
  "is_read (GetAll params) = True"
| "is_read (GetById ident) = True"
| "is_read (Search query filters) = True"
| "is_read (GetPaginated page limit filters) = True"
| "is_read (GetWithRelations ident relations) = True"
| "is_read (Exists ident) = True"
| "is_read other = False"

fun run :: "service \<Rightarrow> (env \<times> operation) list \<Rightarrow> service" where
  "run s [] = s"
| "run s ((e, op) # rest) = run (fst (snd (perform s e op))) rest"

text \<open>
  A \<open>Record<string, string>\<close>, the type of the filters that \<open>getAll\<close> and \<open>search\<close>
  take: an object all of whose values are strings, given by its properties in the order
  of their enumeration. \<open>JSON.stringify\<close> renders each property as its quoted name, a
  colon and its quoted value; after the first one there is a comma before each.
\<close>

definition string_record :: "(string \<times> string) list \<Rightarrow> jsval" where
  "string_record ps = JObj (map (\<lambda>(k, v). (k, JStr v)) ps)"

definition render_property :: "string \<times> string \<Rightarrow> string" where
  "render_property p = quote (fst p) @ CHR '':'' # quote (snd p)"

definition rendered_tail :: "(string \<times> string) list \<Rightarrow> string" where
  "rendered_tail ps = (if ps = [] then [] else CHR '','' # join '','' (map render_property ps))"

text \<open>
  Dispatchers used as concrete inputs: one built from a configuration that names only
  the endpoint, one with a cache timeout of 30 seconds, and one whose endpoint contains a
  colon. A client that answers every call with an empty list.
\<close>

definition items_service :: service where
  "items_service =
     new_service \<lparr>baseEndpoint = ''/items'', config_cacheTimeout = None,
       config_enableCache = None\<rparr>"

definition quick_service :: service where
  "quick_service =
     new_service \<lparr>baseEndpoint = ''/items'', config_cacheTimeout = Some 30000,
       config_enableCache = Some True\<rparr>"

definition colon_service :: service where
  "colon_service =
     new_service \<lparr>baseEndpoint = ''/items:getAll'', config_cacheTimeout = None,
       config_enableCache = None\<rparr>"

definition empty_list_client :: api_client where
  "empty_list_client call =
     Inr \<lparr>resp_data = JArr [], resp_status = 200, resp_message = JUndefined\<rparr>"

text \<open>
  Two exchanges used as concrete inputs: a 404 whose JSON body carries a message, a
  machine code and field-level errors, and a 502 whose body does not parse as JSON.
\<close>

definition not_found_response :: http_response where
  "not_found_response =
     \<lparr>http_status = 404, statusText = ''Not Found'',
      content_type = Some ''application/json; charset=utf-8'',
      json_body = Some (JObj [(''message'', JStr ''Guest not found''),
                              (''code'', JStr ''GUEST_NOT_FOUND''),
                              (''errors'', JObj [(''id'', JArr [JStr ''unknown id''])])]),
      text_body = None\<rparr>"

definition bad_gateway_response :: http_response where
  "bad_gateway_response =
     \<lparr>http_status = 502, statusText = ''Bad Gateway'',
      content_type = Some ''application/json'',
      json_body = None,
      text_body = None\<rparr>"

text \<open>
  A dispatcher that has one guest cached under its \<open>getById\<close> key, stored at time 0 with
  the default TTL, and an environment shortly after.
\<close>

definition service_with_guest :: "string \<Rightarrow> service" where
  "service_with_guest ident =
     setCache items_service 0 (getCacheKey items_service ''getById'' [JStr ident])
       (JObj [(''id'', JStr ident)]) None"

definition soon :: env where
  "soon = \<lparr>now_lookup = 1, now_store = 2, apiClient = empty_list_client\<rparr>"

section \<open>Properties of the rate limiter\<close>

lemma rate_key_inj: "rate_key a = rate_key b \<longleftrightarrow> a = b"
  by (simp add: rate_key_def)

lemma checkRateLimit_other:
  "k \<noteq> rate_key identifier \<Longrightarrow> snd (checkRateLimit m now identifier mx w) k = m k"
  by (simp add: checkRateLimit_def Let_def split: option.splits)

lemma checkRateLimit_local:
  assumes "m1 (rate_key identifier) = m2 (rate_key identifier)"
  shows "fst (checkRateLimit m1 now identifier mx w) = fst (checkRateLimit m2 now identifier mx w)"
    and "snd (checkRateLimit m1 now identifier mx w) (rate_key identifier)
           = snd (checkRateLimit m2 now identifier mx w) (rate_key identifier)"
  using assms by (simp_all add: checkRateLimit_def Let_def split: option.splits)

lemma cleanupRateLimit_local:
  "m1 k = m2 k \<Longrightarrow> cleanupRateLimit m1 now k = cleanupRateLimit m2 now k"
  by (simp add: cleanupRateLimit_def)

text \<open>
  The results returned for \<open>y\<close> depend only on the entry stored for \<open>y\<close> and on the
  events that are not requests of another identifier \<open>x\<close>.
\<close>

lemma run_events_Request:
  "run_events m (Request now i mx w # es)
     = (i, fst (checkRateLimit m now i mx w)) # run_events (snd (checkRateLimit m now i mx w)) es"
  by (simp add: case_prod_beta)

lemma results_for_Nil: "results_for y [] = []"
  by (simp add: results_for_def)

lemma results_for_Cons:
  "results_for y ((i, r) # rs) = (if i = y then r # results_for y rs else results_for y rs)"
  by (simp add: results_for_def)

lemma not_by_Request: "not_by x (Request now i mx w) \<longleftrightarrow> i \<noteq> x"
  by (simp add: not_by_def)

lemma not_by_Cleanup: "not_by x (Cleanup now)"
  by (simp add: not_by_def)

lemma results_for_skip:
  assumes "x \<noteq> y" and "m1 (rate_key y) = m2 (rate_key y)"
  shows "results_for y (run_events m1 es) = results_for y (run_events m2 (filter (not_by x) es))"
  using assms(2)
proof (induction es arbitrary: m1 m2)
  case Nil
  show ?case by (simp add: results_for_Nil)
next
  case (Cons e es)
  show ?case
  proof (cases e)
    case (Cleanup now)
    have "cleanupRateLimit m1 now (rate_key y) = cleanupRateLimit m2 now (rate_key y)"
      using Cons.prems by (rule cleanupRateLimit_local)
    then have "results_for y (run_events (cleanupRateLimit m1 now) es)
                 = results_for y (run_events (cleanupRateLimit m2 now) (filter (not_by x) es))"
      by (rule Cons.IH)
    then show ?thesis
      by (simp only: Cleanup filter.simps not_by_Cleanup if_True run_events.simps)
  next
    case (Request now idn mx w)
    let ?s1 = "snd (checkRateLimit m1 now idn mx w)"
    let ?s2 = "snd (checkRateLimit m2 now idn mx w)"
    have L1: "run_events m1 (e # es)
                = (idn, fst (checkRateLimit m1 now idn mx w)) # run_events ?s1 es"
      unfolding Request by (rule run_events_Request)
    show ?thesis
    proof (cases "idn = x")
      case True
      then have "rate_key y \<noteq> rate_key idn"
        using assms(1) by (simp add: rate_key_inj)
      then have "?s1 (rate_key y) = m2 (rate_key y)"
        using Cons.prems by (simp add: checkRateLimit_other)
      then have ih: "results_for y (run_events ?s1 es)
                   = results_for y (run_events m2 (filter (not_by x) es))"
        by (rule Cons.IH)
      have ne: "idn \<noteq> y"
        using True assms(1) by simp
      have R: "filter (not_by x) (e # es) = filter (not_by x) es"
        unfolding Request using True by (simp add: not_by_Request)
      have "results_for y (run_events m1 (e # es)) = results_for y (run_events ?s1 es)"
        unfolding L1 using ne by (simp add: results_for_Cons)
      then show ?thesis
        unfolding R ih .
    next
      case False
      have "?s1 (rate_key y) = ?s2 (rate_key y)"
      proof (cases "idn = y")
        case True
        show ?thesis
          unfolding True using Cons.prems by (rule checkRateLimit_local(2))
      next
        case False
        then have "rate_key y \<noteq> rate_key idn"
          by (simp add: rate_key_inj)
        then show ?thesis
          using Cons.prems by (simp add: checkRateLimit_other)
      qed
      then have ih: "results_for y (run_events ?s1 es)
                   = results_for y (run_events ?s2 (filter (not_by x) es))"
        by (rule Cons.IH)
      have R: "run_events m2 (filter (not_by x) (e # es))
                 = (idn, fst (checkRateLimit m2 now idn mx w))
                     # run_events ?s2 (filter (not_by x) es)"
        unfolding Request using False by (simp add: not_by_Request case_prod_beta)
      show ?thesis
      proof (cases "idn = y")
        case True
        have "fst (checkRateLimit m1 now idn mx w) = fst (checkRateLimit m2 now idn mx w)"
          unfolding True using Cons.prems by (rule checkRateLimit_local(1))
        then show ?thesis
          unfolding L1 R using ih by (auto simp add: results_for_Cons)
      next
        case False
        then show ?thesis
          unfolding L1 R using ih by (auto simp add: results_for_Cons)
      qed
    qed
  qed
qed

text \<open>
  C2 (as the code decides it). A call starts a fresh window when there is no entry or when
  \<open>now\<close> is strictly later than the stored reset time; inside the window (\<open>now\<close> up to
  and including the reset time) it counts the request while the count is below the limit,
  and otherwise refuses it, leaving the stored entry as it was.
\<close>

theorem checkRateLimit_cases:
  "((m (rate_key i) = None \<or> (\<exists>cur. m (rate_key i) = Some cur \<and> now > resetTime cur)) \<longrightarrow>
      checkRateLimit m now i (Some mx) (Some w)
        = (\<lparr>allowed = True, result_resetTime = now + w\<rparr>,
           m(rate_key i \<mapsto> \<lparr>count = 1, resetTime = now + w\<rparr>)))
   \<and> ((m (rate_key i) = Some c \<and> now \<le> resetTime c \<and> count c < mx) \<longrightarrow>
      checkRateLimit m now i (Some mx) (Some w)
        = (\<lparr>allowed = True, result_resetTime = resetTime c\<rparr>,
           m(rate_key i \<mapsto> c\<lparr>count := count c + 1\<rparr>)))
   \<and> ((m (rate_key i) = Some c \<and> now \<le> resetTime c \<and> mx \<le> count c) \<longrightarrow>
      checkRateLimit m now i (Some mx) (Some w)
        = (\<lparr>allowed = False, result_resetTime = resetTime c\<rparr>, m))"
  by (auto simp add: checkRateLimit_def Let_def)

theorem checkRateLimit_cases_witness:
  "(Map.empty :: rateLimitMap) (rate_key ''a'') = None
   \<and> checkRateLimit Map.empty 0 ''a'' (Some 5) (Some 1000)
       = (\<lparr>allowed = True, result_resetTime = 1000\<rparr>,
          [rate_key ''a'' \<mapsto> \<lparr>count = 1, resetTime = 1000\<rparr>])
   \<and> (100::int) \<le> resetTime \<lparr>count = 1, resetTime = 100\<rparr>
   \<and> count \<lparr>count = 1, resetTime = 100\<rparr> < 5
   \<and> checkRateLimit [rate_key ''a'' \<mapsto> \<lparr>count = 1, resetTime = 100\<rparr>] 100 ''a'' (Some 5) (Some 1000)
       = (\<lparr>allowed = True, result_resetTime = 100\<rparr>,
          [rate_key ''a'' \<mapsto> \<lparr>count = 2, resetTime = 100\<rparr>])
   \<and> (50::int) \<le> resetTime \<lparr>count = 5, resetTime = 100\<rparr>
   \<and> 5 \<le> count \<lparr>count = 5, resetTime = 100\<rparr>
   \<and> checkRateLimit [rate_key ''a'' \<mapsto> \<lparr>count = 5, resetTime = 100\<rparr>] 50 ''a'' (Some 5) (Some 1000)
       = (\<lparr>allowed = False, result_resetTime = 100\<rparr>,
          [rate_key ''a'' \<mapsto> \<lparr>count = 5, resetTime = 100\<rparr>])"
  using checkRateLimit_cases [where m = Map.empty and i = "''a''" and now = 0 and mx = 5 and w = 1000]
    checkRateLimit_cases [where m = "[rate_key ''a'' \<mapsto> \<lparr>count = 1, resetTime = 100\<rparr>]"
      and i = "''a''" and now = 100 and mx = 5 and w = 1000
      and c = "\<lparr>count = 1, resetTime = 100\<rparr>"]
    checkRateLimit_cases [where m = "[rate_key ''a'' \<mapsto> \<lparr>count = 5, resetTime = 100\<rparr>]"
      and i = "''a''" and now = 50 and mx = 5 and w = 1000
      and c = "\<lparr>count = 5, resetTime = 100\<rparr>"]
  by simp

text \<open>
  C2 as the specification words it fails on the boundary: at \<open>now = resetTime\<close> the
  window has elapsed in the specification's sense (\<open>now \<ge> windowResetAt\<close>), yet the
  code still applies the old window, here refusing the request.
\<close>

theorem checkRateLimit_boundary_counterexample:
  "resetTime \<lparr>count = 5, resetTime = 100\<rparr> \<le> 100
   \<and> checkRateLimit [rate_key ''a'' \<mapsto> \<lparr>count = 5, resetTime = 100\<rparr>] 100 ''a'' (Some 5) (Some 1000)
       = (\<lparr>allowed = False, result_resetTime = 100\<rparr>,
          [rate_key ''a'' \<mapsto> \<lparr>count = 5, resetTime = 100\<rparr>])
   \<and> checkRateLimit [rate_key ''a'' \<mapsto> \<lparr>count = 5, resetTime = 100\<rparr>] 100 ''a'' (Some 5) (Some 1000)
       \<noteq> (\<lparr>allowed = True, result_resetTime = 100 + 1000\<rparr>,
          [rate_key ''a'' \<mapsto> \<lparr>count = 1, resetTime = 100 + 1000\<rparr>])"
  by (simp add: checkRateLimit_def)

text \<open>
  C9. Two runs of the limiter that differ only in the requests made under identifier
  \<open>x\<close> return the same sequence of results for every other identifier \<open>y\<close>.
\<close>

theorem rate_limit_noninterference:
  assumes "x \<noteq> y"
    and "filter (not_by x) es1 = filter (not_by x) es2"
  shows "results_for y (run_events m es1) = results_for y (run_events m es2)"
proof -
  have "results_for y (run_events m es1) = results_for y (run_events m (filter (not_by x) es1))"
    using assms(1) by (rule results_for_skip) simp
  also have "\<dots> = results_for y (run_events m (filter (not_by x) es2))"
    using assms(2) by simp
  also have "\<dots> = results_for y (run_events m es2)"
    using assms(1) by (rule results_for_skip [symmetric]) simp
  finally show ?thesis .
qed

theorem rate_limit_noninterference_witness:
  "''x'' \<noteq> ''y''
   \<and> filter (not_by ''x'')
        [Request 0 ''x'' (Some 1) (Some 1000), Request 1 ''x'' (Some 1) (Some 1000),
         Request 2 ''y'' (Some 1) (Some 1000)]
       = filter (not_by ''x'') [Request 2 ''y'' (Some 1) (Some 1000)]
   \<and> results_for ''y'' (run_events Map.empty
        [Request 0 ''x'' (Some 1) (Some 1000), Request 1 ''x'' (Some 1) (Some 1000),
         Request 2 ''y'' (Some 1) (Some 1000)])
       = results_for ''y'' (run_events Map.empty [Request 2 ''y'' (Some 1) (Some 1000)])"
proof -
  have h1: "''x'' \<noteq> ''y''"
    by simp
  have h2: "filter (not_by ''x'')
        [Request 0 ''x'' (Some 1) (Some 1000), Request 1 ''x'' (Some 1) (Some 1000),
         Request 2 ''y'' (Some 1) (Some 1000)]
       = filter (not_by ''x'') [Request 2 ''y'' (Some 1) (Some 1000)]"
    by (simp add: not_by_def)
  from rate_limit_noninterference [OF h1 h2, of Map.empty] h1 h2 show ?thesis
    by blast
qed


section \<open>Properties of the expiring cache\<close>

lemma getCache_after_setCache:
  assumes "enableCache s"
  shows "getCache (setCache s t key v ttl_arg) now key =
           (if now - t \<le> ttl_or_default s ttl_arg then (v, setCache s t key v ttl_arg)
            else (JNull, (setCache s t key v ttl_arg)
                    \<lparr>cache := (cache (setCache s t key v ttl_arg))(key := None)\<rparr>))"
  using assms by (simp add: getCache_def setCache_def)

lemma apply_cache_op_enableCache: "enableCache (apply_cache_op s op) = enableCache s"
  by (cases "(s, op)" rule: apply_cache_op.cases)
     (auto simp add: setCache_def getCache_def clearCache_def split: option.splits)

lemma apply_cache_op_absent:
  assumes "cache s key = None" and "\<not> sets_key key op"
  shows "cache (apply_cache_op s op) key = None"
  using assms
  by (cases "(s, op)" rule: apply_cache_op.cases)
     (auto simp add: setCache_def getCache_def clearCache_def split: option.splits)

lemma run_cache_ops_absent:
  assumes "cache s key = None" and "\<forall>op \<in> set ops. \<not> sets_key key op"
  shows "cache (run_cache_ops s ops) key = None"
  using assms unfolding run_cache_ops_def
proof (induction ops arbitrary: s)
  case Nil
  then show ?case by simp
next
  case (Cons op ops)
  have "cache (apply_cache_op s op) key = None"
    using Cons.prems by (simp add: apply_cache_op_absent)
  then show ?case
    using Cons.IH [of "apply_cache_op s op"] Cons.prems by simp
qed

lemma getCache_absent: "cache s key = None \<Longrightarrow> getCache s now key = (JNull, s)"
  by (simp add: getCache_def)

text \<open>
  C3 (as the code decides it). With caching enabled, a lookup after \<open>setCache\<close> returns
  the value of that most recent \<open>setCache\<close>, leaving the cache as it is, exactly when
  \<open>now - storedAt \<le> ttl\<close>, where \<open>ttl\<close> is the entry's stored TTL (the given one,
  or the default for a missing or zero TTL); otherwise it returns \<open>null\<close> and deletes
  the entry. After such an eviction the key stays absent under any cache traffic that
  holds no \<open>setCache\<close> on the same key.
\<close>

theorem cache_ttl_invariant:
  assumes "enableCache s"
  shows "getCache (setCache s t key v ttl_arg) now key =
           (if now - t \<le> ttl_or_default s ttl_arg then (v, setCache s t key v ttl_arg)
            else (JNull, (setCache s t key v ttl_arg)
                    \<lparr>cache := (cache (setCache s t key v ttl_arg))(key := None)\<rparr>))
         \<and> (ttl_or_default s ttl_arg < now - t \<and> (\<forall>op \<in> set ops. \<not> sets_key key op) \<longrightarrow>
              fst (getCache
                     (run_cache_ops (snd (getCache (setCache s t key v ttl_arg) now key)) ops)
                     now' key) = JNull)"
proof (intro conjI impI)
  show "getCache (setCache s t key v ttl_arg) now key =
           (if now - t \<le> ttl_or_default s ttl_arg then (v, setCache s t key v ttl_arg)
            else (JNull, (setCache s t key v ttl_arg)
                    \<lparr>cache := (cache (setCache s t key v ttl_arg))(key := None)\<rparr>))"
    using assms by (rule getCache_after_setCache)
next
  assume h: "ttl_or_default s ttl_arg < now - t \<and> (\<forall>op \<in> set ops. \<not> sets_key key op)"
  let ?s2 = "snd (getCache (setCache s t key v ttl_arg) now key)"
  have "cache ?s2 key = None"
    using h assms by (simp add: getCache_after_setCache)
  then have "cache (run_cache_ops ?s2 ops) key = None"
    using h by (simp add: run_cache_ops_absent)
  then show "fst (getCache (run_cache_ops ?s2 ops) now' key) = JNull"
    by (simp add: getCache_absent)
qed

lemma items_service_simps:
  "enableCache items_service" "cacheTimeout items_service = 300000"
  "endpoint items_service = ''/items''" "cache items_service = Map.empty"
  by (simp_all add: items_service_def new_service_def)

theorem cache_ttl_invariant_witness:
  "enableCache items_service
   \<and> getCache (setCache items_service 0 ''k'' (JStr ''v'') (Some 10)) 10 ''k''
       = (JStr ''v'', setCache items_service 0 ''k'' (JStr ''v'') (Some 10))
   \<and> ttl_or_default items_service (Some 10) < 11 - 0
   \<and> list_all (\<lambda>op. \<not> sets_key ''k'' op)
        [(12, GetCache ''k''), (13, SetCache ''j'' JNull None), (14, ClearCache None)]
   \<and> fst (getCache
            (run_cache_ops (snd (getCache (setCache items_service 0 ''k'' (JStr ''v'') (Some 10)) 11 ''k''))
               [(12, GetCache ''k''), (13, SetCache ''j'' JNull None), (14, ClearCache None)])
            15 ''k'') = JNull"
proof -
  let ?ops = "[(12, GetCache ''k''), (13, SetCache ''j'' JNull None), (14, ClearCache None)]"
  have e: "enableCache items_service"
    by (simp add: items_service_simps)
  have t: "ttl_or_default items_service (Some 10) = 10"
    by (simp add: ttl_or_default_def)
  have lt: "ttl_or_default items_service (Some 10) < 11 - 0"
    by (simp add: t)
  have o: "\<forall>op \<in> set ?ops. \<not> sets_key ''k'' op"
    by simp
  have a: "getCache (setCache items_service 0 ''k'' (JStr ''v'') (Some 10)) 10 ''k''
       = (JStr ''v'', setCache items_service 0 ''k'' (JStr ''v'') (Some 10))"
    using cache_ttl_invariant [OF e, of 0 "''k''" "JStr ''v''" "Some 10" 10 ?ops 15] t
    by simp
  have b: "fst (getCache
            (run_cache_ops (snd (getCache (setCache items_service 0 ''k'' (JStr ''v'') (Some 10)) 11 ''k''))
               ?ops) 15 ''k'') = JNull"
    using cache_ttl_invariant [OF e, of 0 "''k''" "JStr ''v''" "Some 10" 11 ?ops 15] lt o
    by blast
  have o': "list_all (\<lambda>op. \<not> sets_key ''k'' op) ?ops"
    by simp
  show ?thesis
    using e a lt o' b by blast
qed

text \<open>
  C3 as the specification words it fails on the boundary: at \<open>now - storedAt = ttl\<close> the
  bound \<open>now - storedAt < ttl\<close> no longer holds, yet the lookup returns the stored value.
\<close>

theorem cache_ttl_boundary_counterexample:
  "\<not> ((10::int) - 0 < ttl_or_default items_service (Some 10))
   \<and> fst (getCache (setCache items_service 0 ''k'' (JStr ''v'') (Some 10)) 10 ''k'') = JStr ''v''"
  by (simp add: items_service_simps getCache_def setCache_def ttl_or_default_def)


lemma quick_service_simps:
  "enableCache quick_service" "cacheTimeout quick_service = 30000"
  "endpoint quick_service = ''/items''" "cache quick_service = Map.empty"
  by (simp_all add: quick_service_def new_service_def)








section \<open>Properties of the service dispatcher\<close>

lemma clearCache_empty: "cache s = Map.empty \<Longrightarrow> clearCache s pattern_arg = s"
  by (cases s) (simp add: clearCache_def fun_eq_iff split: option.splits)

lemma cached_read_disabled:
  assumes "\<not> enableCache s"
  shows "cached_read s e k call ttl_arg =
           (case apiClient e call of
              Inl error \<Rightarrow> (Inl error, s, [call])
            | Inr response \<Rightarrow> (Inr (resp_data response), s, [call]))"
  using assms by (simp add: cached_read_def getCache_def setCache_def split: sum.splits)

lemma cached_read_disabled_state:
  "\<not> enableCache s \<Longrightarrow> fst (snd (cached_read s e k call ttl_arg)) = s"
  by (simp add: cached_read_disabled split: sum.splits)

lemma cached_read_disabled_calls:
  "\<not> enableCache s \<Longrightarrow> snd (snd (cached_read s e k call ttl_arg)) = [call]"
  by (simp add: cached_read_disabled split: sum.splits)

lemma write_through_empty_state:
  "cache s = Map.empty \<Longrightarrow> fst (snd (write_through s e call pattern_arg)) = s"
  by (simp add: write_through_def clearCache_empty split: sum.splits)

lemma handleServiceError_state:
  "fst (snd (handleServiceError operation context)) = fst (snd operation)"
  by (simp add: handleServiceError_def split: prod.splits sum.splits)

lemma handleServiceError_calls:
  "snd (snd (handleServiceError operation context)) = snd (snd operation)"
  by (simp add: handleServiceError_def split: prod.splits sum.splits)

lemma void_state: "fst (snd (void operation)) = fst (snd operation)"
  by (simp add: void_def split: prod.splits sum.splits)

lemma exists_op_state: "fst (snd (exists_op s e ident)) = fst (snd (getById s e ident))"
  by (simp add: exists_op_def handleServiceError_state split: prod.splits sum.splits)

lemma exists_op_calls: "snd (snd (exists_op s e ident)) = snd (snd (getById s e ident))"
  by (simp add: exists_op_def handleServiceError_calls split: prod.splits sum.splits)

lemma perform_disabled_state:
  assumes "\<not> enableCache s" and "cache s = Map.empty"
  shows "fst (snd (perform s e op)) = s"
  using assms
  by (cases op)
     (simp_all add: getAll_def getById_def create_def update_def patch_def delete_def
        bulkCreate_def bulkUpdate_def bulkDelete_def search_def getPaginated_def
        getWithRelations_def exists_op_state handleServiceError_state void_state
        cached_read_disabled_state write_through_empty_state Let_def)

lemma perform_disabled_calls:
  assumes "\<not> enableCache s" and "is_read op"
  shows "length (snd (snd (perform s e op))) = 1"
  using assms
  by (cases op)
     (simp_all add: getAll_def getById_def search_def getPaginated_def
        getWithRelations_def exists_op_calls handleServiceError_calls
        cached_read_disabled_calls Let_def)

lemma run_disabled:
  assumes "\<not> enableCache s" and "cache s = Map.empty"
  shows "run s ops = s"
proof (induction ops)
  case Nil
  show ?case by simp
next
  case (Cons a ops)
  obtain e op where a: "a = (e, op)"
    by (cases a)
  have "fst (snd (perform s e op)) = s"
    using assms by (rule perform_disabled_state)
  then show ?case
    using Cons.IH by (simp add: a)
qed

text \<open>
  C10. A dispatcher constructed with \<open>enableCache = false\<close> keeps an empty cache map
  under every sequence of operations: after the sequence \<open>setCache\<close> changes nothing,
  \<open>getCache\<close> returns \<open>null\<close>, and every reading operation issues one client call.
\<close>

theorem cache_disabled_stays_empty:
  assumes "config_enableCache config = Some False"
  shows "cache (run (new_service config) ops) = Map.empty
         \<and> setCache (run (new_service config) ops) now key d ttl_arg = run (new_service config) ops
         \<and> getCache (run (new_service config) ops) now key = (JNull, run (new_service config) ops)
         \<and> (is_read op \<longrightarrow> length (snd (snd (perform (run (new_service config) ops) e op))) = 1)"
proof -
  have off: "\<not> enableCache (new_service config)" and empty: "cache (new_service config) = Map.empty"
    using assms by (simp_all add: new_service_def)
  have r: "run (new_service config) ops = new_service config"
    using off empty by (rule run_disabled)
  show ?thesis
    unfolding r using off empty
    by (simp add: setCache_def getCache_def perform_disabled_calls)
qed


theorem cache_disabled_stays_empty_witness:
  "config_enableCache \<lparr>baseEndpoint = ''/items'', config_cacheTimeout = None,
       config_enableCache = Some False\<rparr> = Some False
   \<and> cache (run (new_service \<lparr>baseEndpoint = ''/items'', config_cacheTimeout = None,
                  config_enableCache = Some False\<rparr>)
          [(\<lparr>now_lookup = 0, now_store = 1, apiClient = empty_list_client\<rparr>, GetAll JUndefined),
           (\<lparr>now_lookup = 2, now_store = 3, apiClient = empty_list_client\<rparr>, Create (JObj []))])
       = Map.empty
   \<and> is_read (GetAll JUndefined)
   \<and> length (snd (snd (perform
         (run (new_service \<lparr>baseEndpoint = ''/items'', config_cacheTimeout = None,
                  config_enableCache = Some False\<rparr>)
            [(\<lparr>now_lookup = 0, now_store = 1, apiClient = empty_list_client\<rparr>, GetAll JUndefined),
             (\<lparr>now_lookup = 2, now_store = 3, apiClient = empty_list_client\<rparr>, Create (JObj []))])
         \<lparr>now_lookup = 4, now_store = 5, apiClient = empty_list_client\<rparr>
         (GetAll JUndefined)))) = 1"
proof -
  let ?config = "\<lparr>baseEndpoint = ''/items'', config_cacheTimeout = None,
       config_enableCache = Some False\<rparr>"
  let ?ops = "[(\<lparr>now_lookup = 0, now_store = 1, apiClient = empty_list_client\<rparr>, GetAll JUndefined),
           (\<lparr>now_lookup = 2, now_store = 3, apiClient = empty_list_client\<rparr>, Create (JObj []))]"
  have c: "config_enableCache ?config = Some False"
    by simp
  have r: "is_read (GetAll JUndefined)"
    by simp
  from cache_disabled_stays_empty [OF c, of ?ops 0 "''k''" JNull None "GetAll JUndefined"
      "\<lparr>now_lookup = 4, now_store = 5, apiClient = empty_list_client\<rparr>"] c r
  show ?thesis
    by blast
qed

lemma cached_read_stores:
  assumes "enableCache s"
    and "\<not> truthy (fst (getCache s (now_lookup e) k))"
    and "apiClient e call = Inr r"
  shows "cache (fst (snd (cached_read s e k call ttl_arg))) k
           = Some \<lparr>data = resp_data r, timestamp = now_store e, ttl = ttl_or_default s ttl_arg\<rparr>"
  using assms
  by (auto simp add: cached_read_def getCache_def setCache_def ttl_or_default_def
      case_prod_beta split: option.splits if_splits)

text \<open>
  C8 (as the code decides it). When \<open>search\<close> misses the cache and the client answers,
  the entry it stores has a TTL of 60000 milliseconds whatever the dispatcher's
  configuration; the entry that \<open>getAll\<close> stores has the dispatcher's cache timeout. The
  default cache timeout is 300000 milliseconds, five times the TTL of a search.
\<close>

theorem search_ttl_one_minute:
  assumes "enableCache s"
    and "\<not> truthy (fst (getCache s (now_lookup e)
                  (getCacheKey s ''search'' [spread [(''q'', JStr query)] filters])))"
    and "apiClient e (ApiGet (endpoint s @ ''/search'') (spread [(''q'', JStr query)] filters)) = Inr r"
    and "\<not> truthy (fst (getCache s (now_lookup e) (getCacheKey s ''getAll'' [params])))"
    and "apiClient e (ApiGet (endpoint s) params) = Inr r'"
  shows "map_option ttl (cache (fst (snd (search s e query filters)))
             (getCacheKey s ''search'' [spread [(''q'', JStr query)] filters])) = Some 60000
         \<and> map_option ttl (cache (fst (snd (getAll s e params)))
             (getCacheKey s ''getAll'' [params])) = Some (cacheTimeout s)
         \<and> cacheTimeout (new_service \<lparr>baseEndpoint = b, config_cacheTimeout = None,
               config_enableCache = c\<rparr>) = 5 * 60000"
proof (intro conjI)
  show "map_option ttl (cache (fst (snd (search s e query filters)))
             (getCacheKey s ''search'' [spread [(''q'', JStr query)] filters])) = Some 60000"
    using assms(1,2,3)
    by (simp add: search_def Let_def handleServiceError_state cached_read_stores
        ttl_or_default_def)
next
  show "map_option ttl (cache (fst (snd (getAll s e params)))
             (getCacheKey s ''getAll'' [params])) = Some (cacheTimeout s)"
    using assms(1,4,5)
    by (simp add: getAll_def handleServiceError_state cached_read_stores ttl_or_default_def)
next
  show "cacheTimeout (new_service \<lparr>baseEndpoint = b, config_cacheTimeout = None,
               config_enableCache = c\<rparr>) = 5 * 60000"
    by (simp add: new_service_def)
qed

lemma getCache_empty: "cache s = Map.empty \<Longrightarrow> getCache s now k = (JNull, s)"
  by (simp add: getCache_def)

theorem search_ttl_one_minute_witness:
  "enableCache quick_service
   \<and> \<not> truthy (fst (getCache quick_service 0
           (getCacheKey quick_service ''search'' [spread [(''q'', JStr ''ann'')] JUndefined])))
   \<and> \<not> truthy (fst (getCache quick_service 0 (getCacheKey quick_service ''getAll'' [JUndefined])))
   \<and> map_option ttl (cache (fst (snd (search quick_service
           \<lparr>now_lookup = 0, now_store = 1, apiClient = empty_list_client\<rparr> ''ann'' JUndefined)))
         (getCacheKey quick_service ''search'' [spread [(''q'', JStr ''ann'')] JUndefined]))
       = Some 60000
   \<and> map_option ttl (cache (fst (snd (getAll quick_service
           \<lparr>now_lookup = 0, now_store = 1, apiClient = empty_list_client\<rparr> JUndefined)))
         (getCacheKey quick_service ''getAll'' [JUndefined]))
       = Some (cacheTimeout quick_service)"
proof -
  let ?e = "\<lparr>now_lookup = 0, now_store = 1, apiClient = empty_list_client\<rparr>"
  let ?r = "\<lparr>resp_data = JArr [], resp_status = 200, resp_message = JUndefined\<rparr>"
  have en: "enableCache quick_service"
    by (simp add: quick_service_simps)
  have m1: "\<not> truthy (fst (getCache quick_service (now_lookup ?e)
           (getCacheKey quick_service ''search'' [spread [(''q'', JStr ''ann'')] JUndefined])))"
    by (simp add: getCache_empty quick_service_simps)
  have m2: "\<not> truthy (fst (getCache quick_service (now_lookup ?e)
           (getCacheKey quick_service ''getAll'' [JUndefined])))"
    by (simp add: getCache_empty quick_service_simps)
  have c1: "apiClient ?e (ApiGet (endpoint quick_service @ ''/search'')
              (spread [(''q'', JStr ''ann'')] JUndefined)) = Inr ?r"
    by (simp add: empty_list_client_def)
  have c2: "apiClient ?e (ApiGet (endpoint quick_service) JUndefined) = Inr ?r"
    by (simp add: empty_list_client_def)
  from search_ttl_one_minute [OF en m1 c1 m2 c2] en m1 m2
  show ?thesis
    by simp
qed

text \<open>
  C8 as the specification words it fails: for a dispatcher configured with a cache timeout
  of 30 seconds a search is cached for 60000 milliseconds and a full list for 30000, so the
  search entry lives longer; and the default timeout is five times, not twelve times, the
  TTL of a search.
\<close>

theorem search_ttl_counterexample:
  "map_option ttl (cache (fst (snd (search quick_service
           \<lparr>now_lookup = 0, now_store = 1, apiClient = empty_list_client\<rparr> ''ann'' JUndefined)))
         (getCacheKey quick_service ''search'' [spread [(''q'', JStr ''ann'')] JUndefined]))
       = Some 60000
   \<and> map_option ttl (cache (fst (snd (getAll quick_service
           \<lparr>now_lookup = 0, now_store = 1, apiClient = empty_list_client\<rparr> JUndefined)))
         (getCacheKey quick_service ''getAll'' [JUndefined]))
       = Some 30000
   \<and> \<not> ((60000::int) < 30000)
   \<and> cacheTimeout items_service = 5 * 60000
   \<and> cacheTimeout items_service \<noteq> 12 * 60000"
  by (simp add: search_def getAll_def Let_def handleServiceError_state cached_read_def
      getCache_empty quick_service_simps items_service_simps empty_list_client_def
      setCache_def ttl_or_default_def)


section \<open>Properties of the error normalizer\<close>

lemma handleResponse_not_found:
  "handleResponse not_found_response =
     Inl (ApiErrorClass \<lparr>message = ''Guest not found'', status = 404,
            code = JStr ''GUEST_NOT_FOUND'',
            details = JObj [(''id'', JArr [JStr ''unknown id''])]\<rparr>)"
  by (simp add: handleResponse_def not_found_response_def ok_def property_def)

lemma handleResponse_bad_gateway:
  "handleResponse bad_gateway_response =
     Inl (ApiErrorClass \<lparr>message = ''Failed to parse response'', status = 502,
            code = JUndefined, details = JUndefined\<rparr>)"
  by (simp add: handleResponse_def bad_gateway_response_def)

text \<open>
  Whatever \<open>request\<close> throws as an \<open>ApiErrorClass\<close> has status 0 and the code
  \<open>NETWORK_ERROR\<close>: the status and details that \<open>handleResponse\<close> put into its error
  do not pass the \<open>catch\<close> of \<open>request\<close>.
\<close>

lemma request_error_is_network_error:
  assumes "request fetched = Inl (ApiErrorClass e)"
  shows "status e = 0 \<and> code e = JStr ''NETWORK_ERROR'' \<and> details e = JUndefined"
proof -
  obtain err where err: "(case fetched of Rejected x \<Rightarrow> Inl x
                            | Resolved response \<Rightarrow> handleResponse response) = Inl err"
    using assms by (auto simp add: request_def split: sum.splits)
  show ?thesis
  proof (cases err)
    case (NonError v)
    then show ?thesis
      using assms err by (simp add: request_def)
  next
    case (JsError msg)
    then show ?thesis
      using assms err by (auto simp add: request_def network_error_def)
  next
    case (ApiErrorClass a)
    then show ?thesis
      using assms err by (auto simp add: request_def network_error_def)
  qed
qed

text \<open>
  C1. For the 404 exchange \<open>handleResponse\<close> builds the error the claim describes, with
  status 404, the server's message, code and field-level details; but \<open>request\<close>, which
  is what the caller gets, throws an error with status 0 and code \<open>NETWORK_ERROR\<close> and
  without the details. The same happens to the unparsable 502: the caller sees status 0,
  not 502.
\<close>

theorem request_loses_response_status:
  "handleResponse not_found_response =
     Inl (ApiErrorClass \<lparr>message = ''Guest not found'', status = 404,
            code = JStr ''GUEST_NOT_FOUND'',
            details = JObj [(''id'', JArr [JStr ''unknown id''])]\<rparr>)
   \<and> request (Resolved not_found_response) =
     Inl (ApiErrorClass \<lparr>message = ''Guest not found'', status = 0,
            code = JStr ''NETWORK_ERROR'', details = JUndefined\<rparr>)
   \<and> request (Resolved bad_gateway_response) =
     Inl (ApiErrorClass \<lparr>message = ''Failed to parse response'', status = 0,
            code = JStr ''NETWORK_ERROR'', details = JUndefined\<rparr>)"
  by (simp add: request_def handleResponse_not_found handleResponse_bad_gateway
      network_error_def)

text \<open>
  Where the mapping does return a non-empty string: for every status other than 400 and
  422, and for those two when the error carries no (truthy) details.
\<close>

lemma handleError_nonempty:
  assumes "(status e \<noteq> 400 \<and> status e \<noteq> 422) \<or> \<not> truthy (details e)"
  shows "\<exists>text. handleError e = Some text \<and> text \<noteq> []"
  using assms by (auto simp add: handleError_def)

text \<open>
  The details branch can also throw: an object among the details that has an own
  \<open>toString\<close> property cannot be converted to a string by \<open>join\<close>.
\<close>

lemma handleError_throws:
  "handleError \<lparr>message = ''Validation failed'', status = 400, code = JUndefined,
      details = JObj [(''name'', JObj [(''toString'', JNum 1)])]\<rparr> = None"
  by (simp add: handleError_def details_summary_def)

text \<open>
  C5. For a 400 whose details are the empty object, and for a 422 whose only field has an
  empty list of messages, the mapping returns the empty string.
\<close>

theorem handleError_empty_string:
  "handleError \<lparr>message = ''Validation failed'', status = 400, code = JUndefined,
      details = JObj []\<rparr> = Some []
   \<and> handleError \<lparr>message = ''Validation failed'', status = 422, code = JUndefined,
      details = JObj [(''email'', JArr [])]\<rparr> = Some []"
  by (simp add: handleError_def details_summary_def)

section \<open>Properties of the cache key\<close>

lemma JSON_stringify_array:
  "JSON_stringify (JArr ps) = Some (''['' @ join '','' (stringify_elements ps) @ '']'')"
  by simp

lemma digit_char_inj:
  assumes "a < 16" and "b < 16" and "digit_char a = digit_char b"
  shows "a = b"
proof -
  have "distinct ''0123456789abcdef''"
    by simp
  then show ?thesis
    using assms unfolding digit_char_def by (simp add: nth_eq_iff_index_eq)
qed

lemma hex_pair_inj:
  assumes "(n::nat) < 32" and "m < 32"
    and "digit_char (n div 16) = digit_char (m div 16)"
    and "digit_char (n mod 16) = digit_char (m mod 16)"
  shows "n = m"
proof -
  have "n div 16 = m div 16"
    using assms(1,2,3) by (intro digit_char_inj) simp_all
  moreover have "n mod 16 = m mod 16"
    using assms(4) by (intro digit_char_inj) simp_all
  ultimately show ?thesis
    by (metis div_mult_mod_eq)
qed

lemma escape_char_not_Nil: "escape_char c \<noteq> []"
  by (simp add: escape_char_def)

lemma escape_char_hd: "hd (escape_char c) \<noteq> CHR 0x22"
  by (simp add: escape_char_def)

lemma escape_char_prefix_code:
  assumes "escape_char c @ x = escape_char d @ y"
  shows "c = d \<and> x = y"
proof -
  have u: "c = d" if "(of_char c :: nat) < 32" "(of_char d :: nat) < 32"
      "digit_char (of_char c div 16) = digit_char (of_char d div 16)"
      "digit_char (of_char c mod 16) = digit_char (of_char d mod 16)"
  proof -
    have "(of_char c :: nat) = of_char d"
      using that by (rule hex_pair_inj)
    then show ?thesis
      by simp
  qed
  show ?thesis
    using assms u
    by (simp add: escape_char_def split: if_splits)
qed


lemma quote_not_escaped:
  "CHR 0x22 # x \<noteq> escape_char d @ y"
proof
  assume "CHR 0x22 # x = escape_char d @ y"
  then have "hd (CHR 0x22 # x) = hd (escape_char d @ y)"
    by (rule arg_cong)
  then have "CHR 0x22 = hd (escape_char d)"
    by (simp add: escape_char_not_Nil)
  then show False
    using escape_char_hd [of d] by simp
qed

lemma escaped_then_quote:
  assumes "concat (map escape_char s) @ CHR 0x22 # x = concat (map escape_char t) @ CHR 0x22 # y"
  shows "s = t \<and> x = y"
  using assms
proof (induction s arbitrary: t)
  case Nil
  show ?case
  proof (cases t)
    case Nil
    then show ?thesis
      using Nil.prems by simp
  next
    case (Cons d t')
    then have "CHR 0x22 # x = escape_char d @ (concat (map escape_char t') @ CHR 0x22 # y)"
      using Nil.prems by simp
    then show ?thesis
      by (simp add: quote_not_escaped)
  qed
next
  case (Cons c s')
  show ?case
  proof (cases t)
    case Nil
    then have "CHR 0x22 # y = escape_char c @ (concat (map escape_char s') @ CHR 0x22 # x)"
      using Cons.prems by simp
    then show ?thesis
      by (simp add: quote_not_escaped)
  next
    case (Cons d t')
    have "escape_char c @ (concat (map escape_char s') @ CHR 0x22 # x)
            = escape_char d @ (concat (map escape_char t') @ CHR 0x22 # y)"
      using Cons.prems Cons by simp
    then have cd: "c = d"
      and rest: "concat (map escape_char s') @ CHR 0x22 # x
                   = concat (map escape_char t') @ CHR 0x22 # y"
      by (auto dest: escape_char_prefix_code)
    from Cons.IH [OF rest] cd show ?thesis
      using Cons by simp
  qed
qed

lemma quote_prefix_code:
  assumes "quote s @ x = quote t @ y"
  shows "s = t \<and> x = y"
proof -
  have "concat (map escape_char s) @ CHR 0x22 # x = concat (map escape_char t) @ CHR 0x22 # y"
    using assms by (simp add: quote_def)
  then show ?thesis
    by (rule escaped_then_quote)
qed

lemma render_property_prefix_code:
  assumes "render_property p @ x = render_property q @ y"
  shows "p = q \<and> x = y"
proof -
  have "quote (fst p) @ (CHR '':'' # quote (snd p) @ x)
          = quote (fst q) @ (CHR '':'' # quote (snd q) @ y)"
    using assms by (simp add: render_property_def)
  then have k: "fst p = fst q" and "CHR '':'' # quote (snd p) @ x = CHR '':'' # quote (snd q) @ y"
    by (auto dest: quote_prefix_code)
  then have "quote (snd p) @ x = quote (snd q) @ y"
    by simp
  then have "snd p = snd q \<and> x = y"
    by (rule quote_prefix_code)
  then show ?thesis
    using k by (simp add: prod_eq_iff)
qed

lemma render_property_not_Nil: "render_property p \<noteq> []"
  by (simp add: render_property_def quote_def)

lemma join_Cons: "join sep (x # xs) = x @ (if xs = [] then [] else sep @ join sep xs)"
  by (cases xs) simp_all

lemma join_rendered_Cons:
  "join '','' (render_property p # map render_property ps) = render_property p @ rendered_tail ps"
  by (simp add: join_Cons rendered_tail_def)

lemma join_rendered_inj:
  assumes "join '','' (map render_property ps) = join '','' (map render_property qs)"
  shows "ps = qs"
  using assms
proof (induction ps arbitrary: qs)
  case Nil
  show ?case
  proof (cases qs)
    case Nil
    then show ?thesis by simp
  next
    case (Cons q qs')
    then have "[] = render_property q @ rendered_tail qs'"
      using Nil.prems by (simp add: join_rendered_Cons)
    then show ?thesis
      by (simp add: render_property_not_Nil)
  qed
next
  case (Cons p ps)
  show ?case
  proof (cases qs)
    case Nil
    then have "render_property p @ rendered_tail ps = []"
      using Cons.prems by (simp add: join_rendered_Cons)
    then show ?thesis
      by (simp add: render_property_not_Nil)
  next
    case (Cons q qs')
    have "render_property p @ rendered_tail ps = render_property q @ rendered_tail qs'"
      using Cons.prems unfolding Cons by (simp add: join_rendered_Cons)
    then have both: "p = q \<and> rendered_tail ps = rendered_tail qs'"
      by (rule render_property_prefix_code)
    have "ps = qs'"
    proof (cases "ps = []")
      case True
      then show ?thesis
        using both by (simp add: rendered_tail_def split: if_splits)
    next
      case False
      then have "qs' \<noteq> []"
        using both by (auto simp add: rendered_tail_def split: if_splits)
      then have "join '','' (map render_property ps) = join '','' (map render_property qs')"
        using both False by (simp add: rendered_tail_def)
      then show ?thesis
        by (rule Cons.IH)
    qed
    then show ?thesis
      using both Cons by simp
  qed
qed

lemma stringify_string_record:
  "stringify_properties (map (\<lambda>(k, v). (k, JStr v)) ps) = map render_property ps"
  by (induction ps) (auto simp add: render_property_def)

lemma string_record_key_inj:
  "getCacheKey s m [string_record ps] = getCacheKey s m [string_record qs] \<longleftrightarrow> ps = qs"
proof
  assume "getCacheKey s m [string_record ps] = getCacheKey s m [string_record qs]"
  then have "join '','' (map render_property ps) = join '','' (map render_property qs)"
    by (simp add: getCacheKey_def string_record_def stringify_string_record)
  then show "ps = qs"
    by (rule join_rendered_inj)
next
  assume "ps = qs"
  then show "getCacheKey s m [string_record ps] = getCacheKey s m [string_record qs]"
    by simp
qed

lemma append_separator_eq:
  assumes "c \<notin> set a" and "c \<notin> set b" and "a @ c # x = b @ c # y"
  shows "a = b \<and> x = y"
  using assms
proof (induction a arbitrary: b)
  case Nil
  then show ?case
    by (cases b) auto
next
  case (Cons a0 as)
  show ?case
  proof (cases b)
    case Nil
    then show ?thesis
      using Cons.prems by auto
  next
    case (Cons b0 bs)
    then have "as = bs \<and> x = y"
      using Cons.prems by (intro Cons.IH) auto
    then show ?thesis
      using Cons Cons.prems by auto
  qed
qed

lemma getCacheKey_joint:
  assumes "CHR '':'' \<notin> set (endpoint s1)" and "CHR '':'' \<notin> set (endpoint s2)"
    and "CHR '':'' \<notin> set m1" and "CHR '':'' \<notin> set m2"
  shows "getCacheKey s1 m1 p1 = getCacheKey s2 m2 p2
           \<longleftrightarrow> endpoint s1 = endpoint s2 \<and> m1 = m2
               \<and> JSON_stringify (JArr p1) = JSON_stringify (JArr p2)"
proof
  let ?j1 = "''['' @ join '','' (stringify_elements p1) @ '']''"
  let ?j2 = "''['' @ join '','' (stringify_elements p2) @ '']''"
  assume "getCacheKey s1 m1 p1 = getCacheKey s2 m2 p2"
  then have eq: "endpoint s1 @ CHR '':'' # (m1 @ CHR '':'' # ?j1)
                   = endpoint s2 @ CHR '':'' # (m2 @ CHR '':'' # ?j2)"
    by (simp add: getCacheKey_def)
  with assms(1,2) have e: "endpoint s1 = endpoint s2 \<and> m1 @ CHR '':'' # ?j1 = m2 @ CHR '':'' # ?j2"
    by (rule append_separator_eq)
  then have "m1 @ CHR '':'' # ?j1 = m2 @ CHR '':'' # ?j2"
    by simp
  with assms(3,4) have "m1 = m2 \<and> ?j1 = ?j2"
    by (rule append_separator_eq)
  then show "endpoint s1 = endpoint s2 \<and> m1 = m2
               \<and> JSON_stringify (JArr p1) = JSON_stringify (JArr p2)"
    using e by simp
next
  assume "endpoint s1 = endpoint s2 \<and> m1 = m2
               \<and> JSON_stringify (JArr p1) = JSON_stringify (JArr p2)"
  then show "getCacheKey s1 m1 p1 = getCacheKey s2 m2 p2"
    by (simp add: getCacheKey_def)
qed

text \<open>
  C4 (as the code decides it). Changing only the endpoint, or only the operation name,
  always changes the key. Changing only the parameters changes the key exactly when the
  JSON text of the parameter array changes. When neither the endpoints nor the operation
  names contain a colon, two keys are equal exactly when the endpoints, the operation
  names and the JSON texts of the parameters are. For a parameter object all of whose
  values are strings the key keeps the order of the properties: two such objects get the
  same key exactly when they enumerate the same properties, with the same values, in the
  same order. The parameter lists \<open>[undefined]\<close> and \<open>[null]\<close> always get the same
  key.
\<close>

theorem getCacheKey_components:
  "(getCacheKey sa m p = getCacheKey sb m p \<longleftrightarrow> endpoint sa = endpoint sb)
   \<and> (getCacheKey s ma p = getCacheKey s mb p \<longleftrightarrow> ma = mb)
   \<and> (getCacheKey s m pa = getCacheKey s m pb
        \<longleftrightarrow> JSON_stringify (JArr pa) = JSON_stringify (JArr pb))
   \<and> (CHR '':'' \<notin> set (endpoint sa) \<and> CHR '':'' \<notin> set (endpoint sb)
        \<and> CHR '':'' \<notin> set ma \<and> CHR '':'' \<notin> set mb \<longrightarrow>
        (getCacheKey sa ma pa = getCacheKey sb mb pb
           \<longleftrightarrow> endpoint sa = endpoint sb \<and> ma = mb
               \<and> JSON_stringify (JArr pa) = JSON_stringify (JArr pb)))
   \<and> (getCacheKey s m [string_record ps] = getCacheKey s m [string_record qs] \<longleftrightarrow> ps = qs)
   \<and> getCacheKey s m [JUndefined] = getCacheKey s m [JNull]"
proof (intro conjI impI)
  show "getCacheKey sa m p = getCacheKey sb m p \<longleftrightarrow> endpoint sa = endpoint sb"
    by (simp add: getCacheKey_def)
  show "getCacheKey s ma p = getCacheKey s mb p \<longleftrightarrow> ma = mb"
    by (simp add: getCacheKey_def)
  show "getCacheKey s m pa = getCacheKey s m pb
        \<longleftrightarrow> JSON_stringify (JArr pa) = JSON_stringify (JArr pb)"
    by (simp add: getCacheKey_def)
  assume "CHR '':'' \<notin> set (endpoint sa) \<and> CHR '':'' \<notin> set (endpoint sb)
        \<and> CHR '':'' \<notin> set ma \<and> CHR '':'' \<notin> set mb"
  then show "getCacheKey sa ma pa = getCacheKey sb mb pb
           \<longleftrightarrow> endpoint sa = endpoint sb \<and> ma = mb
               \<and> JSON_stringify (JArr pa) = JSON_stringify (JArr pb)"
    by (intro getCacheKey_joint) simp_all
next
  show "getCacheKey s m [string_record ps] = getCacheKey s m [string_record qs] \<longleftrightarrow> ps = qs"
    by (rule string_record_key_inj)
next
  show "getCacheKey s m [JUndefined] = getCacheKey s m [JNull]"
    by (simp add: getCacheKey_def)
qed

theorem getCacheKey_components_witness:
  "CHR '':'' \<notin> set (endpoint items_service) \<and> CHR '':'' \<notin> set (endpoint quick_service)
   \<and> CHR '':'' \<notin> set ''getAll'' \<and> CHR '':'' \<notin> set ''getById''
   \<and> getCacheKey items_service ''getAll'' [JStr ''7''] \<noteq> getCacheKey quick_service ''getById'' [JStr ''7'']
   \<and> getCacheKey items_service ''getAll'' [string_record [(''a'', ''1''), (''b'', ''2'')]]
       \<noteq> getCacheKey items_service ''getAll'' [string_record [(''b'', ''2''), (''a'', ''1'')]]"
proof -
  have h: "CHR '':'' \<notin> set (endpoint items_service) \<and> CHR '':'' \<notin> set (endpoint quick_service)
        \<and> CHR '':'' \<notin> set ''getAll'' \<and> CHR '':'' \<notin> set ''getById''"
    by (simp add: items_service_simps quick_service_simps)
  note t = getCacheKey_components [where sa = items_service and sb = quick_service
        and ma = "''getAll''" and mb = "''getById''" and pa = "[JStr ''7'']" and pb = "[JStr ''7'']"
        and s = items_service and m = "''getAll''" and p = "[]"
        and ps = "[(''a'', ''1''), (''b'', ''2'')]" and qs = "[(''b'', ''2''), (''a'', ''1'')]"]
  have a: "getCacheKey items_service ''getAll'' [JStr ''7''] \<noteq> getCacheKey quick_service ''getById'' [JStr ''7'']"
    using t h by simp
  have "[(''a'', ''1''), (''b'', ''2'')] \<noteq> [(''b'', ''2''), (''a'', ''1'')]"
    by simp
  then have b: "getCacheKey items_service ''getAll'' [string_record [(''a'', ''1''), (''b'', ''2'')]]
       \<noteq> getCacheKey items_service ''getAll'' [string_record [(''b'', ''2''), (''a'', ''1'')]]"
    using t by blast
  show ?thesis
    using h a b by blast
qed

text \<open>
  C4 as the specification words it fails. The same parameters written in another order
  are two objects with the same properties, and they get different keys. The parameter
  lists \<open>[undefined]\<close> and \<open>[null]\<close> differ, yet get the same key. And with a colon in
  the names, a different endpoint with a different operation name can give the same key.
\<close>

theorem getCacheKey_counterexample:
  "map_of [(''a'', JStr ''1''), (''b'', JStr ''2'')] = map_of [(''b'', JStr ''2''), (''a'', JStr ''1'')]
   \<and> getCacheKey items_service ''getAll'' [JObj [(''a'', JStr ''1''), (''b'', JStr ''2'')]]
       \<noteq> getCacheKey items_service ''getAll'' [JObj [(''b'', JStr ''2''), (''a'', JStr ''1'')]]
   \<and> [JUndefined] \<noteq> [JNull]
   \<and> getCacheKey items_service ''getAll'' [JUndefined]
       = getCacheKey items_service ''getAll'' [JNull]
   \<and> endpoint items_service \<noteq> endpoint colon_service
   \<and> getCacheKey items_service ''getAll:getById'' [JStr ''7'']
       = getCacheKey colon_service ''getById'' [JStr ''7'']"
  by (auto simp add: getCacheKey_def fun_eq_iff quote_def escape_char_def
      items_service_simps colon_service_def new_service_def)


section \<open>Invalidation after a create\<close>

lemma string_includes_sublist: "string_includes s p \<longleftrightarrow> sublist p s"
  by (induction s) (simp_all add: sublist_Cons_right)

lemma sublist_split_char:
  assumes "c \<notin> set p" and "sublist p (xs @ c # ys)"
  shows "sublist p xs \<or> sublist p ys"
proof -
  consider "sublist p xs" | "sublist p (c # ys)"
    | p1 p2 where "p = p1 @ p2" "suffix p1 xs" "prefix p2 (c # ys)"
    using assms(2) by (auto simp add: sublist_append)
  then show ?thesis
  proof cases
    case 1
    then show ?thesis by simp
  next
    case 2
    then have "prefix p (c # ys) \<or> sublist p ys"
      by (simp add: sublist_Cons_right)
    moreover have "prefix p (c # ys) \<Longrightarrow> p = []"
      using assms(1) by (cases p) auto
    ultimately show ?thesis
      by auto
  next
    case 3
    have "p2 = []"
      using 3(3) assms(1) 3(1) by (cases p2) auto
    then have "suffix p xs"
      using 3(1,2) by simp
    then show ?thesis
      by (auto simp add: suffix_def)
  qed
qed

lemma digit_char_hex: "d < 16 \<Longrightarrow> digit_char d \<in> set ''0123456789abcdef''"
  unfolding digit_char_def by (rule nth_mem) simp

lemma escape_char_cases:
  "escape_char c = [c] \<or> (\<exists>tl. escape_char c = CHR 0x5C # tl \<and> set tl \<subseteq> escape_tail)"
proof (cases "escape_char c = [c]")
  case True
  then show ?thesis by simp
next
  case False
  have d1: "digit_char (of_char c div 16) \<in> set ''0123456789abcdef''"
    if "(of_char c :: nat) < 32"
    using that by (intro digit_char_hex) simp
  have d2: "digit_char (of_char c mod 16) \<in> set ''0123456789abcdef''"
    by (intro digit_char_hex) simp
  show ?thesis
    using False d1 d2
    by (auto simp add: escape_char_def escape_tail_def split: if_splits)
qed

lemma prefix_through_escape:
  assumes "CHR 0x5C \<notin> set p" and "prefix p (concat (map escape_char cs))"
  shows "prefix p cs"
  using assms
proof (induction p arbitrary: cs)
  case Nil
  show ?case by simp
next
  case (Cons a p)
  show ?case
  proof (cases cs)
    case Nil
    then show ?thesis
      using Cons.prems by simp
  next
    case (Cons c cs')
    from escape_char_cases [of c] show ?thesis
    proof
      assume lit: "escape_char c = [c]"
      then have "a = c" and "prefix p (concat (map escape_char cs'))"
        using Cons.prems(2) Cons by simp_all
      moreover have "CHR 0x5C \<notin> set p"
        using Cons.prems(1) by simp
      ultimately show ?thesis
        using Cons.IH [of cs'] Cons by simp
    next
      assume "\<exists>tl. escape_char c = CHR 0x5C # tl \<and> set tl \<subseteq> escape_tail"
      then obtain tl where "escape_char c = CHR 0x5C # tl"
        by blast
      then have "a = CHR 0x5C"
        using Cons.prems(2) Cons by simp
      then show ?thesis
        using Cons.prems(1) by simp
    qed
  qed
qed

lemma sublist_through_escape:
  assumes "p \<noteq> []" and "hd p \<notin> escape_tail" and "CHR 0x5C \<notin> set p"
    and "sublist p (concat (map escape_char cs))"
  shows "sublist p cs"
  using assms(4)
proof (induction cs)
  case Nil
  then show ?case by simp
next
  case (Cons c cs)
  let ?rest = "concat (map escape_char cs)"
  have hd_in: "hd p \<in> set p"
    using assms(1) by simp
  have hd_not: "hd p \<noteq> CHR 0x5C"
    using hd_in assms(3) by auto
  consider "sublist p (escape_char c)" | "sublist p ?rest"
    | p1 p2 where "p = p1 @ p2" "suffix p1 (escape_char c)" "prefix p2 ?rest"
    using Cons.prems by (auto simp add: sublist_append)
  then show ?case
  proof cases
    case 2
    then have "sublist p cs"
      by (rule Cons.IH)
    then show ?thesis
      by (simp add: sublist_Cons_right)
  next
    case 1
    from escape_char_cases [of c] show ?thesis
    proof
      assume "escape_char c = [c]"
      then have "sublist p [c]"
        using 1 by simp
      then have "p = [c]"
        using assms(1) by (auto simp add: sublist_Cons_right prefix_Cons)
      then show ?thesis
        by (simp add: sublist_Cons_right)
    next
      assume "\<exists>tl. escape_char c = CHR 0x5C # tl \<and> set tl \<subseteq> escape_tail"
      then obtain tl where tl: "escape_char c = CHR 0x5C # tl" "set tl \<subseteq> escape_tail"
        by blast
      have "set p \<subseteq> set (escape_char c)"
        using 1 by (rule set_mono_sublist)
      then have "hd p \<in> insert (CHR 0x5C) (set tl)"
        using hd_in tl(1) by auto
      then show ?thesis
        using hd_not tl(2) assms(2) by auto
    qed
  next
    case 3
    have no2: "CHR 0x5C \<notin> set p2"
      using assms(3) 3(1) by simp
    have p2: "prefix p2 cs"
      using no2 3(3) by (rule prefix_through_escape)
    show ?thesis
    proof (cases "p1 = []")
      case True
      then have "prefix p cs"
        using p2 3(1) by simp
      then show ?thesis
        by (simp add: sublist_Cons_right)
    next
      case False
      then have "hd p = hd p1" and "hd p1 \<in> set p1"
        using 3(1) by simp_all
      moreover have "set p1 \<subseteq> set (escape_char c)"
        using 3(2) by (rule set_mono_suffix)
      ultimately have hd_esc: "hd p \<in> set (escape_char c)"
        by auto
      from escape_char_cases [of c] show ?thesis
      proof
        assume lit: "escape_char c = [c]"
        then have "p1 = [c]"
          using 3(2) False by (auto simp add: suffix_def Cons_eq_append_conv)
        then have "prefix p (c # cs)"
          using 3(1) p2 by simp
        then show ?thesis
          by (rule prefix_imp_sublist)
      next
        assume "\<exists>tl. escape_char c = CHR 0x5C # tl \<and> set tl \<subseteq> escape_tail"
        then obtain tl where tl: "escape_char c = CHR 0x5C # tl" "set tl \<subseteq> escape_tail"
          by blast
        then show ?thesis
          using hd_esc hd_not assms(2) by auto
      qed
    qed
  qed
qed


lemma sublist_skip_char:
  assumes "c \<notin> set p" and "p \<noteq> []" and "sublist p (c # ys)"
  shows "sublist p ys"
  using sublist_split_char [of c p "[]" ys] assms by simp

lemma getById_key_shape:
  "getCacheKey s ''getById'' [JStr ident] =
     endpoint s @ CHR '':'' # (''getById'' @ CHR '':'' #
       (CHR ''['' # (CHR 0x22 # (concat (map escape_char ident) @ CHR 0x22 # '']''))))"
  by (simp add: getCacheKey_def quote_def)

lemma getById_key_free:
  assumes "\<not> string_includes (endpoint s) ''getAll''"
    and "\<not> string_includes ident ''getAll''"
  shows "\<not> string_includes (getCacheKey s ''getById'' [JStr ident]) ''getAll''"
proof
  define p where "p = ''getAll''"
  define r3 where "r3 = concat (map escape_char ident) @ CHR 0x22 # '']''"
  define r2 where "r2 = CHR ''['' # (CHR 0x22 # r3)"
  define r1 where "r1 = ''getById'' @ CHR '':'' # r2"
  have p_chars: "CHR '':'' \<notin> set p" "CHR ''['' \<notin> set p" "CHR 0x22 \<notin> set p"
    "CHR 0x5C \<notin> set p" "p \<noteq> []" "hd p \<notin> escape_tail"
    by (simp_all add: p_def escape_tail_def)
  assume "string_includes (getCacheKey s ''getById'' [JStr ident]) ''getAll''"
  then have "sublist p (endpoint s @ CHR '':'' # r1)"
    by (simp only: string_includes_sublist getById_key_shape p_def r1_def r2_def r3_def)
  with p_chars(1) have "sublist p (endpoint s) \<or> sublist p r1"
    by (rule sublist_split_char)
  moreover have "\<not> sublist p (endpoint s)"
    using assms(1) by (simp add: string_includes_sublist p_def)
  ultimately have "sublist p (''getById'' @ CHR '':'' # r2)"
    by (simp add: r1_def)
  with p_chars(1) have "sublist p ''getById'' \<or> sublist p r2"
    by (rule sublist_split_char)
  moreover have "\<not> sublist p ''getById''"
    by (simp add: p_def sublist_Cons_right)
  ultimately have "sublist p (CHR ''['' # (CHR 0x22 # r3))"
    by (simp add: r2_def)
  with p_chars(2,5) have "sublist p (CHR 0x22 # r3)"
    by (rule sublist_skip_char)
  with p_chars(3,5) have "sublist p (concat (map escape_char ident) @ CHR 0x22 # '']'')"
    unfolding r3_def by (rule sublist_skip_char)
  with p_chars(3) have "sublist p (concat (map escape_char ident)) \<or> sublist p '']''"
    by (rule sublist_split_char)
  moreover have "\<not> sublist p '']''"
    by (simp add: p_def sublist_Cons_right)
  ultimately have "sublist p (concat (map escape_char ident))"
    by simp
  with p_chars(5,6,4) have "sublist p ident"
    by (rule sublist_through_escape)
  then show False
    using assms(2) by (simp add: string_includes_sublist p_def)
qed

lemma getAll_key_includes: "string_includes (getCacheKey s ''getAll'' ps) ''getAll''"
proof -
  have "getCacheKey s ''getAll'' ps
          = (endpoint s @ '':'') @ ''getAll''
              @ ('':'' @ (case JSON_stringify (JArr ps) of None \<Rightarrow> ''undefined'' | Some t \<Rightarrow> t))"
    by (simp add: getCacheKey_def)
  then show ?thesis
    by (simp only: string_includes_sublist sublist_appendI)
qed

lemma clearCache_fields:
  "enableCache (clearCache s pattern_arg) = enableCache s"
  "endpoint (clearCache s pattern_arg) = endpoint s"
  "cacheTimeout (clearCache s pattern_arg) = cacheTimeout s"
  by (simp_all add: clearCache_def split: option.splits)

lemma clearCache_pattern:
  "pattern \<noteq> [] \<Longrightarrow>
   cache (clearCache s (Some pattern)) k = (if string_includes k pattern then None else cache s k)"
  by (simp add: clearCache_def)

lemma create_state:
  assumes "apiClient e (ApiPost (endpoint s) d) = Inr r"
  shows "fst (snd (create s e d)) = clearCache s (Some ''getAll'')"
  using assms by (simp add: create_def handleServiceError_state write_through_def)

lemma getCacheKey_endpoint: "endpoint s' = endpoint s \<Longrightarrow> getCacheKey s' m ps = getCacheKey s m ps"
  by (simp add: getCacheKey_def)

lemma getCache_value_local:
  assumes "enableCache s' = enableCache s" and "cache s' k = cache s k"
  shows "fst (getCache s' now k) = fst (getCache s now k)"
  using assms by (simp add: getCache_def split: option.splits)

lemma cached_read_calls:
  "snd (snd (cached_read s e k call ttl_arg))
     = (if truthy (fst (getCache s (now_lookup e) k)) then [] else [call])"
  by (simp add: cached_read_def case_prod_beta split: sum.splits)

lemma cached_read_result:
  "fst (cached_read s e k call ttl_arg)
     = (if truthy (fst (getCache s (now_lookup e) k)) then Inr (fst (getCache s (now_lookup e) k))
        else case apiClient e call of Inl error \<Rightarrow> Inl error
                                    | Inr response \<Rightarrow> Inr (resp_data response))"
  by (simp add: cached_read_def case_prod_beta split: sum.splits)

lemma handleServiceError_result:
  "fst (handleServiceError operation context)
     = (case fst operation of Inl error \<Rightarrow> Inl (service_error_message context error)
                            | Inr v \<Rightarrow> Inr v)"
  by (simp add: handleServiceError_def split: prod.splits sum.splits)

text \<open>
  C6 (as the code decides it). After a successful \<open>create\<close> every entry whose key contains
  the text \<open>getAll\<close> is gone, whatever operation stored it; the key of a \<open>getAll\<close> does
  contain it, so the next \<open>getAll\<close>, with any parameters, calls the client. Every other
  entry is untouched. A cached \<open>getById\<close> entry is among the untouched ones
  whenever neither the endpoint nor the id contains the text \<open>getAll\<close>: the next
  \<open>getById\<close> for that id then returns what it would have returned without the
  \<open>create\<close>, with the same client calls (none, if the entry was a hit).
\<close>

theorem create_invalidates_getAll_keys:
  assumes "apiClient e (ApiPost (endpoint s) d) = Inr r"
  shows "cache (fst (snd (create s e d))) (getCacheKey s ''getAll'' [params]) = None
         \<and> snd (snd (getAll (fst (snd (create s e d))) e' params)) = [ApiGet (endpoint s) params]
         \<and> (string_includes k ''getAll'' \<longrightarrow> cache (fst (snd (create s e d))) k = None)
         \<and> (\<not> string_includes k ''getAll'' \<longrightarrow> cache (fst (snd (create s e d))) k = cache s k)
         \<and> (\<not> string_includes (endpoint s) ''getAll'' \<and> \<not> string_includes ident ''getAll'' \<longrightarrow>
              cache (fst (snd (create s e d))) (getCacheKey s ''getById'' [JStr ident])
                = cache s (getCacheKey s ''getById'' [JStr ident])
              \<and> fst (getById (fst (snd (create s e d))) e' ident) = fst (getById s e' ident)
              \<and> snd (snd (getById (fst (snd (create s e d))) e' ident))
                  = snd (snd (getById s e' ident)))"
proof -
  let ?s' = "clearCache s (Some ''getAll'')"
  have st: "fst (snd (create s e d)) = ?s'"
    using assms by (rule create_state)
  have gone: "cache ?s' (getCacheKey s ''getAll'' [params]) = None"
    by (simp add: clearCache_pattern getAll_key_includes)
  have keys: "getCacheKey ?s' m ps = getCacheKey s m ps" for m ps
    by (rule getCacheKey_endpoint) (simp add: clearCache_fields)
  have miss: "fst (getCache ?s' (now_lookup e') (getCacheKey s ''getAll'' [params])) = JNull"
    using gone by (simp add: getCache_def)
  have calls: "snd (snd (getAll ?s' e' params)) = [ApiGet (endpoint s) params]"
    by (simp add: getAll_def handleServiceError_calls cached_read_calls keys miss
        clearCache_fields)
  have dropped: "cache ?s' k = None" if "string_includes k ''getAll''" for k
    using that by (simp add: clearCache_pattern)
  have kept: "cache ?s' k = cache s k" if "\<not> string_includes k ''getAll''" for k
    using that by (simp add: clearCache_pattern)
  have byid: "cache ?s' (getCacheKey s ''getById'' [JStr ident])
                = cache s (getCacheKey s ''getById'' [JStr ident])
              \<and> fst (getById ?s' e' ident) = fst (getById s e' ident)
              \<and> snd (snd (getById ?s' e' ident)) = snd (snd (getById s e' ident))"
    if h: "\<not> string_includes (endpoint s) ''getAll'' \<and> \<not> string_includes ident ''getAll''"
  proof -
    have free: "\<not> string_includes (getCacheKey s ''getById'' [JStr ident]) ''getAll''"
      using h by (simp add: getById_key_free)
    then have same: "cache ?s' (getCacheKey s ''getById'' [JStr ident])
                = cache s (getCacheKey s ''getById'' [JStr ident])"
      by (rule kept)
    have val: "fst (getCache ?s' (now_lookup e') (getCacheKey s ''getById'' [JStr ident]))
                 = fst (getCache s (now_lookup e') (getCacheKey s ''getById'' [JStr ident]))"
      using same by (intro getCache_value_local) (simp_all add: clearCache_fields)
    show ?thesis
      using same val
      by (simp add: getById_def handleServiceError_calls handleServiceError_result
          cached_read_calls cached_read_result keys clearCache_fields)
  qed
  show ?thesis
    unfolding st using gone calls dropped kept byid by blast
qed


lemma service_with_guest_simps:
  "enableCache (service_with_guest ident)"
  "endpoint (service_with_guest ident) = ''/items''"
  "cache (service_with_guest ident) (getCacheKey items_service ''getById'' [JStr ident])
     = Some \<lparr>data = JObj [(''id'', JStr ident)], timestamp = 0, ttl = 300000\<rparr>"
  by (simp_all add: service_with_guest_def setCache_def items_service_simps ttl_or_default_def)

lemma service_with_guest_key:
  "getCacheKey (service_with_guest ident) m ps = getCacheKey items_service m ps"
  by (rule getCacheKey_endpoint) (simp add: service_with_guest_simps items_service_simps)

lemma service_with_guest_hit:
  "snd (snd (getById (service_with_guest ident) soon ident)) = []"
  by (simp add: getById_def handleServiceError_calls cached_read_calls service_with_guest_key
      getCache_def service_with_guest_simps soon_def)

lemma soon_create:
  "apiClient soon (ApiPost (endpoint (service_with_guest ident)) (JObj []))
     = Inr \<lparr>resp_data = JArr [], resp_status = 200, resp_message = JUndefined\<rparr>"
  by (simp add: soon_def empty_list_client_def)

theorem create_invalidates_getAll_keys_witness:
  "apiClient soon (ApiPost (endpoint (service_with_guest ''42'')) (JObj []))
     = Inr \<lparr>resp_data = JArr [], resp_status = 200, resp_message = JUndefined\<rparr>
   \<and> snd (snd (getAll (fst (snd (create (service_with_guest ''42'') soon (JObj [])))) soon JUndefined))
       = [ApiGet (endpoint (service_with_guest ''42'')) JUndefined]
   \<and> \<not> string_includes (endpoint (service_with_guest ''42'')) ''getAll''
   \<and> \<not> string_includes ''42'' ''getAll''
   \<and> snd (snd (getById (fst (snd (create (service_with_guest ''42'') soon (JObj [])))) soon ''42''))
       = []
   \<and> apiClient soon (ApiPost (endpoint (service_with_guest ''getAll-1'')) (JObj []))
     = Inr \<lparr>resp_data = JArr [], resp_status = 200, resp_message = JUndefined\<rparr>
   \<and> string_includes (getCacheKey items_service ''getById'' [JStr ''getAll-1'']) ''getAll''
   \<and> cache (service_with_guest ''getAll-1'') (getCacheKey items_service ''getById'' [JStr ''getAll-1''])
       = Some \<lparr>data = JObj [(''id'', JStr ''getAll-1'')], timestamp = 0, ttl = 300000\<rparr>
   \<and> cache (fst (snd (create (service_with_guest ''getAll-1'') soon (JObj []))))
         (getCacheKey items_service ''getById'' [JStr ''getAll-1'']) = None"
proof -
  let ?s = "service_with_guest ''42''"
  let ?k = "getCacheKey items_service ''getById'' [JStr ''getAll-1'']"
  have free: "\<not> string_includes (endpoint ?s) ''getAll'' \<and> \<not> string_includes ''42'' ''getAll''"
    by (simp add: service_with_guest_simps)
  note t = create_invalidates_getAll_keys [OF soon_create [of "''42''"],
      of JUndefined soon "''none''" "''42''"]
  have a: "snd (snd (getAll (fst (snd (create ?s soon (JObj [])))) soon JUndefined))
       = [ApiGet (endpoint ?s) JUndefined]"
    using t by blast
  have "snd (snd (getById (fst (snd (create ?s soon (JObj [])))) soon ''42''))
       = snd (snd (getById ?s soon ''42''))"
    using t free by blast
  then have b: "snd (snd (getById (fst (snd (create ?s soon (JObj [])))) soon ''42'')) = []"
    by (simp only: service_with_guest_hit)
  have inc: "string_includes ?k ''getAll''"
    by (simp add: getCacheKey_def items_service_simps quote_def escape_char_def)
  have c: "cache (fst (snd (create (service_with_guest ''getAll-1'') soon (JObj [])))) ?k = None"
    using create_invalidates_getAll_keys [OF soon_create [of "''getAll-1''"],
      of JUndefined soon ?k "''getAll-1''"] inc
    by blast
  show ?thesis
    using soon_create [of "''42''"] a free b soon_create [of "''getAll-1''"] inc
      service_with_guest_simps(3) [of "''getAll-1''"] c
    by blast
qed

text \<open>
  C6 as the specification words it fails for an id that contains the text \<open>getAll\<close>: the
  guest \<open>getAll-1\<close> is cached and served without a call before the \<open>create\<close>; after
  it the entry is gone and the same \<open>getById\<close>, at the same time, calls the client.
\<close>

theorem create_drops_getById_counterexample:
  "snd (snd (getById (service_with_guest ''getAll-1'') soon ''getAll-1'')) = []
   \<and> snd (snd (getById (fst (snd (create (service_with_guest ''getAll-1'') soon (JObj []))))
         soon ''getAll-1'')) = [ApiGet ''/items/getAll-1'' JUndefined]"
proof -
  let ?s = "service_with_guest ''getAll-1''"
  let ?k = "getCacheKey items_service ''getById'' [JStr ''getAll-1'']"
  have inc: "string_includes ?k ''getAll''"
    by (simp add: getCacheKey_def items_service_simps quote_def escape_char_def)
  have st: "fst (snd (create ?s soon (JObj []))) = clearCache ?s (Some ''getAll'')"
    using soon_create by (rule create_state)
  have gone: "cache (clearCache ?s (Some ''getAll'')) ?k = None"
    using inc by (simp add: clearCache_pattern)
  have key: "getCacheKey (clearCache ?s (Some ''getAll'')) ''getById'' [JStr ''getAll-1''] = ?k"
    by (rule getCacheKey_endpoint)
       (simp add: clearCache_fields service_with_guest_simps items_service_simps)
  have "snd (snd (getById (clearCache ?s (Some ''getAll'')) soon ''getAll-1''))
          = [ApiGet ''/items/getAll-1'' JUndefined]"
    using gone
    by (simp add: getById_def handleServiceError_calls cached_read_calls key getCache_def
        clearCache_fields service_with_guest_simps)
  then show ?thesis
    by (simp only: st service_with_guest_hit simp_thms)
qed

end
